theory Spec2Isabelle
  imports Main "HOL-Library.Multiset" "HOL-Library.Word"
begin

section \<open>The tables of \<open>database/init.sql\<close>\<close>

text \<open>
  A UUID is modelled as a natural number. A \<open>TIMESTAMP\<close> is the integer the storage
  engine keeps for it, the count of microseconds since 2000-01-01 00:00:00; the time zone
  of the session is taken to be UTC, so that a \<open>TIMESTAMP\<close> and \<open>CURRENT_TIMESTAMP\<close> at
  the same instant are the same count. A string is the list of its characters. A column
  declared \<open>NOT NULL\<close> has the type of its values, a nullable column has an \<open>option\<close>
  type with \<open>None\<close> for \<open>NULL\<close>. The \<open>reports\<close> table plays no part in what follows and
  is left out.

  The file holds two scripts. The first one declares the tables with their cascading
  foreign keys, the indexes, the views, the functions and the trigger; it is the one
  modelled here. The second one declares the same tables without the cascades and adds
  test data.
\<close>

type_synonym uuid = nat
type_synonym timestamp = int

record users_row =
  u_id :: uuid
  u_username :: string
  u_email :: "string option"
  u_created_at :: "timestamp option"

record files_row =
  f_id :: uuid
  f_file_path :: string
  f_file_name :: string
  f_created_at :: "timestamp option"

record file_sessions_row =
  fs_id :: uuid
  fs_user_id :: uuid
  fs_file_id :: uuid
  fs_started_at :: timestamp
  fs_last_activity :: timestamp
  fs_ended_at :: "timestamp option"
  fs_hash_before :: "string option"
  fs_hash_after :: "string option"
  fs_is_commented :: "bool option"
  fs_resume_count :: "int option"

record file_events_row =
  fe_id :: uuid
  fe_session_id :: uuid
  fe_event_type :: string
  fe_file_hash :: "string option"
  fe_event_timestamp :: timestamp

record comments_row =
  c_id :: uuid
  c_session_id :: uuid
  c_user_id :: uuid
  c_content :: string
  c_change_type :: string
  c_created_at :: "timestamp option"

text \<open>
  The stored state: every table is the list of its rows. The order of the list is the
  order in which the rows were inserted; no query that lacks an \<open>ORDER BY\<close> shows it.
\<close>

record database =
  users :: "users_row list"
  files :: "files_row list"
  file_sessions :: "file_sessions_row list"
  file_events :: "file_events_row list"
  comments :: "comments_row list"

definition empty_db :: database where
  "empty_db = \<lparr>users = [], files = [], file_sessions = [], file_events = [], comments = []\<rparr>"

section \<open>Errors of the storage engine\<close>

text \<open>
  The errors a statement of this schema can raise, named after their SQLSTATE:
  22001 \<open>string_data_right_truncation\<close> with the length of the column, 22008
  \<open>datetime_field_overflow\<close>, 22025 \<open>invalid_escape_sequence\<close>, 23505 \<open>unique_violation\<close>
  and 23503 \<open>foreign_key_violation\<close> with the name of the constraint. A statement that
  raises leaves the stored state as it was.
\<close>

datatype db_error =
    StringDataRightTruncation nat
  | DatetimeFieldOverflow
  | InvalidEscapeSequence
  | UniqueViolation string
  | ForeignKeyViolation string

section \<open>Values of the \<open>VARCHAR\<close> columns\<close>

text \<open>
  A value stored into a \<open>VARCHAR(n)\<close> column may have at most \<open>n\<close> characters. A longer
  value is refused, unless all the characters beyond the \<open>n\<close>-th are spaces: then the
  first \<open>n\<close> characters are stored.
\<close>

definition varchar :: "nat \<Rightarrow> string \<Rightarrow> db_error + string" where
  "varchar n s =
     (if length s \<le> n then Inr s
      else if \<forall>c \<in> set (drop n s). c = CHR 0x20 then Inr (take n s)
      else Inl (StringDataRightTruncation n))"

definition varchar_null :: "nat \<Rightarrow> string option \<Rightarrow> db_error + string option" where
  "varchar_null n v =
     (case v of
        None \<Rightarrow> Inr None
      | Some s \<Rightarrow> (case varchar n s of Inl e \<Rightarrow> Inl e | Inr s' \<Rightarrow> Inr (Some s')))"

text \<open>The row of each table as its columns take it.\<close>

definition coerce_users :: "users_row \<Rightarrow> db_error + users_row" where
  "coerce_users u =
     (case varchar 100 (u_username u) of
        Inl e \<Rightarrow> Inl e
      | Inr username \<Rightarrow>
          (case varchar_null 255 (u_email u) of
             Inl e \<Rightarrow> Inl e
           | Inr email \<Rightarrow> Inr (u\<lparr>u_username := username, u_email := email\<rparr>)))"

definition coerce_files :: "files_row \<Rightarrow> db_error + files_row" where
  "coerce_files f =
     (case varchar 1000 (f_file_path f) of
        Inl e \<Rightarrow> Inl e
      | Inr file_path \<Rightarrow>
          (case varchar 255 (f_file_name f) of
             Inl e \<Rightarrow> Inl e
           | Inr file_name \<Rightarrow> Inr (f\<lparr>f_file_path := file_path, f_file_name := file_name\<rparr>)))"

definition coerce_file_sessions :: "file_sessions_row \<Rightarrow> db_error + file_sessions_row" where
  "coerce_file_sessions fs =
     (case varchar_null 64 (fs_hash_before fs) of
        Inl e \<Rightarrow> Inl e
      | Inr hash_before \<Rightarrow>
          (case varchar_null 64 (fs_hash_after fs) of
             Inl e \<Rightarrow> Inl e
           | Inr hash_after \<Rightarrow>
               Inr (fs\<lparr>fs_hash_before := hash_before, fs_hash_after := hash_after\<rparr>)))"

definition coerce_file_events :: "file_events_row \<Rightarrow> db_error + file_events_row" where
  "coerce_file_events e =
     (case varchar 20 (fe_event_type e) of
        Inl err \<Rightarrow> Inl err
      | Inr event_type \<Rightarrow>
          (case varchar_null 64 (fe_file_hash e) of
             Inl err \<Rightarrow> Inl err
           | Inr file_hash \<Rightarrow> Inr (e\<lparr>fe_event_type := event_type, fe_file_hash := file_hash\<rparr>)))"

definition coerce_comments :: "comments_row \<Rightarrow> db_error + comments_row" where
  "coerce_comments c =
     (case varchar 50 (c_change_type c) of
        Inl e \<Rightarrow> Inl e
      | Inr change_type \<Rightarrow> Inr (c\<lparr>c_change_type := change_type\<rparr>))"

section \<open>Constraint checks of the tables\<close>

text \<open>
  An \<open>INSERT\<close> either stores its row or raises. The values are first brought to the
  types of their columns. The unique indexes (primary key first, then the \<open>UNIQUE\<close>
  columns) are checked when the row is stored, the foreign keys after that.

  All the indexes created with \<open>CREATE INDEX\<close>, \<open>idx_file_sessions_active\<close> among them,
  are plain indexes (the script introduces them as indexes for performance): they add no
  check to any statement.
\<close>

definition insert_users :: "database \<Rightarrow> users_row \<Rightarrow> db_error + database" where
  "insert_users db row =
     (case coerce_users row of
        Inl e \<Rightarrow> Inl e
      | Inr u \<Rightarrow>
          if u_id u \<in> set (map u_id (users db)) then Inl (UniqueViolation ''users_pkey'')
          else if u_username u \<in> set (map u_username (users db))
            then Inl (UniqueViolation ''users_username_key'')
          else Inr (db\<lparr>users := users db @ [u]\<rparr>))"

definition insert_files :: "database \<Rightarrow> files_row \<Rightarrow> db_error + database" where
  "insert_files db row =
     (case coerce_files row of
        Inl e \<Rightarrow> Inl e
      | Inr f \<Rightarrow>
          if f_id f \<in> set (map f_id (files db)) then Inl (UniqueViolation ''files_pkey'')
          else if f_file_path f \<in> set (map f_file_path (files db))
            then Inl (UniqueViolation ''files_file_path_key'')
          else Inr (db\<lparr>files := files db @ [f]\<rparr>))"

definition insert_file_sessions :: "database \<Rightarrow> file_sessions_row \<Rightarrow> db_error + database" where
  "insert_file_sessions db row =
     (case coerce_file_sessions row of
        Inl e \<Rightarrow> Inl e
      | Inr fs \<Rightarrow>
          if fs_id fs \<in> set (map fs_id (file_sessions db))
            then Inl (UniqueViolation ''file_sessions_pkey'')
          else if fs_user_id fs \<notin> set (map u_id (users db))
            then Inl (ForeignKeyViolation ''file_sessions_user_id_fkey'')
          else if fs_file_id fs \<notin> set (map f_id (files db))
            then Inl (ForeignKeyViolation ''file_sessions_file_id_fkey'')
          else Inr (db\<lparr>file_sessions := file_sessions db @ [fs]\<rparr>))"

definition insert_file_events :: "database \<Rightarrow> file_events_row \<Rightarrow> db_error + database" where
  "insert_file_events db row =
     (case coerce_file_events row of
        Inl err \<Rightarrow> Inl err
      | Inr e \<Rightarrow>
          if fe_id e \<in> set (map fe_id (file_events db))
            then Inl (UniqueViolation ''file_events_pkey'')
          else if fe_session_id e \<notin> set (map fs_id (file_sessions db))
            then Inl (ForeignKeyViolation ''file_events_session_id_fkey'')
          else Inr (db\<lparr>file_events := file_events db @ [e]\<rparr>))"

section \<open>The trigger \<open>trg_comment_changes\<close>\<close>

text \<open>
  \<open>update_session_commented_flag\<close> runs after each inserted or deleted row of \<open>comments\<close>
  (\<open>AFTER INSERT OR DELETE ... FOR EACH ROW\<close>); its argument is the row \<open>NEW\<close> of an
  insert, the row \<open>OLD\<close> of a delete.
\<close>

datatype tg_op = TG_INSERT | TG_DELETE

fun update_session_commented_flag :: "tg_op \<Rightarrow> comments_row \<Rightarrow> database \<Rightarrow> database" where
  "update_session_commented_flag TG_INSERT new db =
     db\<lparr>file_sessions :=
          map (\<lambda>fs. if fs_id fs = c_session_id new then fs\<lparr>fs_is_commented := Some True\<rparr> else fs)
              (file_sessions db)\<rparr>"
| "update_session_commented_flag TG_DELETE old db =
     db\<lparr>file_sessions :=
          map (\<lambda>fs. if fs_id fs = c_session_id old then fs\<lparr>fs_is_commented := Some False\<rparr> else fs)
              (file_sessions db)\<rparr>"

definition insert_comments :: "database \<Rightarrow> comments_row \<Rightarrow> db_error + database" where
  "insert_comments db row =
     (case coerce_comments row of
        Inl e \<Rightarrow> Inl e
      | Inr c \<Rightarrow>
          if c_id c \<in> set (map c_id (comments db)) then Inl (UniqueViolation ''comments_pkey'')
          else if c_session_id c \<in> set (map c_session_id (comments db))
            then Inl (UniqueViolation ''comments_session_id_key'')
          else if c_session_id c \<notin> set (map fs_id (file_sessions db))
            then Inl (ForeignKeyViolation ''comments_session_id_fkey'')
          else if c_user_id c \<notin> set (map u_id (users db))
            then Inl (ForeignKeyViolation ''comments_user_id_fkey'')
          else Inr (update_session_commented_flag TG_INSERT c (db\<lparr>comments := comments db @ [c]\<rparr>)))"

text \<open>
  \<open>DELETE FROM comments WHERE P\<close>: the rows go, then the trigger runs once for each of
  them.
\<close>

definition delete_comments :: "(comments_row \<Rightarrow> bool) \<Rightarrow> database \<Rightarrow> database" where
  "delete_comments P db =
     fold (update_session_commented_flag TG_DELETE) (filter P (comments db))
          (db\<lparr>comments := filter (\<lambda>c. \<not> P c) (comments db)\<rparr>)"

text \<open>
  \<open>DELETE FROM file_sessions WHERE P\<close>. Both \<open>file_events.session_id\<close> and
  \<open>comments.session_id\<close> are declared \<open>ON DELETE CASCADE\<close>: the events and the comments of
  the deleted sessions go with them, and the deleted comments fire the trigger.
\<close>

definition delete_file_sessions :: "(file_sessions_row \<Rightarrow> bool) \<Rightarrow> database \<Rightarrow> database" where
  "delete_file_sessions P db =
     (let gone = map fs_id (filter P (file_sessions db));
          db1 = db\<lparr>file_sessions := filter (\<lambda>fs. \<not> P fs) (file_sessions db),
                    file_events := filter (\<lambda>e. fe_session_id e \<notin> set gone) (file_events db)\<rparr>
      in delete_comments (\<lambda>c. c_session_id c \<in> set gone) db1)"

text \<open>
  \<open>DELETE FROM users WHERE P\<close> cascades to the sessions and to the comments of the
  deleted users, \<open>DELETE FROM files WHERE P\<close> to the sessions of the deleted files.
\<close>

definition delete_users :: "(users_row \<Rightarrow> bool) \<Rightarrow> database \<Rightarrow> database" where
  "delete_users P db =
     (let gone = map u_id (filter P (users db));
          db1 = db\<lparr>users := filter (\<lambda>u. \<not> P u) (users db)\<rparr>;
          db2 = delete_file_sessions (\<lambda>fs. fs_user_id fs \<in> set gone) db1
      in delete_comments (\<lambda>c. c_user_id c \<in> set gone) db2)"

definition delete_files :: "(files_row \<Rightarrow> bool) \<Rightarrow> database \<Rightarrow> database" where
  "delete_files P db =
     (let gone = map f_id (filter P (files db));
          db1 = db\<lparr>files := filter (\<lambda>f. \<not> P f) (files db)\<rparr>
      in delete_file_sessions (\<lambda>fs. fs_file_id fs \<in> set gone) db1)"

section \<open>\<open>close_old_sessions\<close>\<close>

text \<open>
  One \<open>UPDATE file_sessions SET ... WHERE ...\<close>: the rows that satisfy the condition,
  as the statement finds them, get the new columns, all in the one statement; the
  number that comes with the new state is the \<open>ROW_COUNT\<close> of the statement. No trigger
  is declared on \<open>file_sessions\<close>, so the statement has no further effect.
\<close>

definition update_file_sessions_where ::
  "(file_sessions_row \<Rightarrow> bool) \<Rightarrow> (file_sessions_row \<Rightarrow> file_sessions_row) \<Rightarrow> database
     \<Rightarrow> database \<times> int" where
  "update_file_sessions_where condition set_columns db =
     (db\<lparr>file_sessions :=
          map (\<lambda>fs. if condition fs then set_columns fs else fs) (file_sessions db)\<rparr>,
      int (length (filter condition (file_sessions db))))"

text \<open>
  \<open>(max_age_hours || ' hours')::INTERVAL\<close>: a whole number of hours, in microseconds.
  \<open>max_age_hours\<close> is an \<open>INTEGER\<close>, a signed number of 32 bits; the interval of every
  such number of hours exists.
\<close>

definition hours_interval :: "32 word \<Rightarrow> int" where
  "hours_interval max_age_hours = sint max_age_hours * 3600000000"

text \<open>
  The timestamps of the engine run from \<open>MIN_TIMESTAMP\<close> (in 4713 BC) up to, but not
  including, \<open>END_TIMESTAMP\<close> (the start of the year 294277 AD). Subtracting an interval
  from a timestamp raises \<open>timestamp out of range\<close> when the difference is not one of
  them. The rows of the model may hold any count as a timestamp, those of the engine only
  the counts of this range and the two infinite timestamps: the model has all the states
  of the engine, and more.
\<close>

definition MIN_TIMESTAMP :: timestamp where
  "MIN_TIMESTAMP = - 211813488000000000"

definition END_TIMESTAMP :: timestamp where
  "END_TIMESTAMP = 9223371331200000000"

definition timestamp_mi_interval :: "timestamp \<Rightarrow> int \<Rightarrow> db_error + timestamp" where
  "timestamp_mi_interval t span =
     (if MIN_TIMESTAMP \<le> t - span \<and> t - span < END_TIMESTAMP then Inr (t - span)
      else Inl DatetimeFieldOverflow)"

text \<open>
  The function computes the limit \<open>CURRENT_TIMESTAMP - (max_age_hours || ' hours')::INTERVAL\<close>
  and runs one \<open>UPDATE\<close>, followed by \<open>GET DIAGNOSTICS ... ROW_COUNT\<close>. \<open>now\<close> is the
  value of \<open>CURRENT_TIMESTAMP\<close> in the transaction that runs it. The result is the new
  state and the number of rows the statement updated, or the error of the subtraction.
  The limit does not depend on the row: the model computes it once, before the
  \<open>UPDATE\<close>, and raises its error whatever the table holds. The engine has to compute
  the limit when a session is open; when none is, it may return 0 without computing it.
  \<open>closed_count\<close> is an \<open>INTEGER\<close>: the model takes the number of updated rows to be one,
  which it is as long as the table has fewer than \<open>2^31\<close> rows to update.
\<close>

definition close_old_sessions :: "timestamp \<Rightarrow> 32 word \<Rightarrow> database \<Rightarrow> db_error + database \<times> int" where
  "close_old_sessions now max_age_hours db =
     (case timestamp_mi_interval now (hours_interval max_age_hours) of
        Inl e \<Rightarrow> Inl e
      | Inr limit \<Rightarrow>
          Inr (update_file_sessions_where
                 (\<lambda>fs. fs_ended_at fs = None \<and> fs_last_activity fs < limit)
                 (\<lambda>fs. fs\<lparr>fs_ended_at := Some (fs_last_activity fs)\<rparr>)
                 db))"

section \<open>\<open>get_current_editors\<close>\<close>

text \<open>
  \<open>FROM file_sessions fs JOIN users u ON fs.user_id = u.id JOIN files f ON fs.file_id = f.id\<close>.
\<close>

definition sessions_users_files :: "database \<Rightarrow> (file_sessions_row \<times> users_row \<times> files_row) list" where
  "sessions_users_files db =
     [(fs, u, f). fs \<leftarrow> file_sessions db,
                  u \<leftarrow> users db, fs_user_id fs = u_id u,
                  f \<leftarrow> files db, fs_file_id fs = f_id f]"

record current_editor =
  ce_username :: string
  ce_file_path :: string
  ce_file_name :: string
  ce_last_activity :: timestamp
  ce_session_id :: uuid

text \<open>
  A condition that can raise, applied to the rows one after the other: the rows for which
  it holds, or the first error.
\<close>

fun where_rows :: "('a \<Rightarrow> db_error + bool) \<Rightarrow> 'a list \<Rightarrow> db_error + 'a list" where
  "where_rows condition [] = Inr []"
| "where_rows condition (row # rows) =
     (case condition row of
        Inl e \<Rightarrow> Inl e
      | Inr holds \<Rightarrow>
          (case where_rows condition rows of
             Inl e \<Rightarrow> Inl e
           | Inr kept \<Rightarrow> Inr (if holds then row # kept else kept)))"

text \<open>
  \<open>LIKE\<close> is an operator of the storage engine, not code of the repository: the query
  takes it as the parameter \<open>like\<close>, with \<open>like path pattern\<close> for
  \<open>path LIKE pattern\<close>, which is true, false or an error. The model tests
  \<open>fs.ended_at IS NULL AND f.file_path LIKE file_path_pattern\<close> as it is written, the
  pattern on the rows of open sessions only; the engine is free to match the pattern
  against the path of any stored file. \<open>ORDER BY fs.last_activity DESC\<close> leaves the
  order of rows with equal \<open>last_activity\<close> open; the model keeps them in the order of the
  join.
\<close>

definition get_current_editors ::
  "(string \<Rightarrow> string \<Rightarrow> db_error + bool) \<Rightarrow> database \<Rightarrow> string \<Rightarrow> db_error + current_editor list" where
  "get_current_editors like db file_path_pattern =
     (case where_rows (\<lambda>(fs, u, f). like (f_file_path f) file_path_pattern)
             (filter (\<lambda>(fs, u, f). fs_ended_at fs = None) (sessions_users_files db)) of
        Inl e \<Rightarrow> Inl e
      | Inr rows \<Rightarrow>
          Inr (sort_key (\<lambda>r. - ce_last_activity r)
                 (map (\<lambda>(fs, u, f).
                         \<lparr>ce_username = u_username u, ce_file_path = f_file_path f,
                          ce_file_name = f_file_name f, ce_last_activity = fs_last_activity fs,
                          ce_session_id = fs_id fs\<rparr>)
                      rows)))"

text \<open>
  The matching routine of the engine, for the examples. \<open>%\<close> stands for any run of
  characters, \<open>_\<close> for any one character, a backslash makes the character after it stand
  for itself. The routine walks text and pattern together (\<open>MatchText\<close>). After a \<open>%\<close> it
  first passes the wildcards that follow (\<open>MatchText_wildcards\<close>), then tries every
  position of the text that begins with the next character of the pattern
  (\<open>MatchText_scan\<close>). \<open>LIKE_ABORT\<close> says that the text ran out: no later position can
  match either. A pattern whose last character is a backslash that escapes nothing is an
  error, raised when the walk reaches that backslash.
\<close>

datatype like_result = LIKE_TRUE | LIKE_FALSE | LIKE_ABORT

function (sequential)
  MatchText :: "string \<Rightarrow> string \<Rightarrow> db_error + like_result" and
  MatchText_wildcards :: "string \<Rightarrow> string \<Rightarrow> db_error + like_result" and
  MatchText_scan :: "char \<Rightarrow> string \<Rightarrow> string \<Rightarrow> db_error + like_result"
where
  "MatchText [] p =
     (if dropWhile (\<lambda>c. c = CHR ''%'') p = [] then Inr LIKE_TRUE else Inr LIKE_ABORT)"
| "MatchText (tc # t) [] = Inr LIKE_FALSE"
| "MatchText (tc # t) (pc # p) =
     (if pc = CHR 0x5C
        then (case p of
                [] \<Rightarrow> Inl InvalidEscapeSequence
              | q # p' \<Rightarrow> if q \<noteq> tc then Inr LIKE_FALSE else MatchText t p')
      else if pc = CHR ''%'' then MatchText_wildcards (tc # t) p
      else if pc = CHR ''_'' then MatchText t p
      else if pc \<noteq> tc then Inr LIKE_FALSE
      else MatchText t p)"
| "MatchText_wildcards t [] = Inr LIKE_TRUE"
| "MatchText_wildcards t (pc # p) =
     (if pc = CHR ''%'' then MatchText_wildcards t p
      else if pc = CHR ''_''
        then (case t of [] \<Rightarrow> Inr LIKE_ABORT | tc # t' \<Rightarrow> MatchText_wildcards t' p)
      else if pc = CHR 0x5C
        then (case p of
                [] \<Rightarrow> Inl InvalidEscapeSequence
              | q # p' \<Rightarrow> MatchText_scan q t (pc # p))
      else MatchText_scan pc t (pc # p))"
| "MatchText_scan firstpat [] p = Inr LIKE_ABORT"
| "MatchText_scan firstpat (tc # t) p =
     (if tc = firstpat
        then (case MatchText (tc # t) p of
                Inl e \<Rightarrow> Inl e
              | Inr LIKE_FALSE \<Rightarrow> MatchText_scan firstpat t p
              | Inr matched \<Rightarrow> Inr matched)
      else MatchText_scan firstpat t p)"
  by pat_completeness auto
termination
  by (relation "measure (\<lambda>x. case x of
          Inl (t, p) \<Rightarrow> 3 * (length t + length p)
        | Inr (Inl (t, p)) \<Rightarrow> 3 * (length t + length p) + 2
        | Inr (Inr (firstpat, t, p)) \<Rightarrow> 3 * (length t + length p) + 1)")
     auto

definition like_match :: "string \<Rightarrow> string \<Rightarrow> db_error + bool" where
  "like_match t p =
     (case MatchText t p of Inl e \<Rightarrow> Inl e | Inr matched \<Rightarrow> Inr (matched = LIKE_TRUE))"

section \<open>Statements and reachable states\<close>

text \<open>
  The statements that change the stored state. \<open>InsertSession\<close> is an \<open>INSERT\<close> that does
  not name the column \<open>is_commented\<close>, which takes its default \<open>FALSE\<close>. \<open>UpdateSession\<close>
  is the \<open>UPDATE\<close> of one session described below, \<open>CloseOldSessions\<close> a call of
  \<open>close_old_sessions\<close> at the given time.
\<close>

datatype statement =
    InsertUser users_row
  | InsertFile files_row
  | InsertSession file_sessions_row
  | InsertEvent file_events_row
  | InsertComment comments_row
  | UpdateSession uuid timestamp "timestamp option" "string option" "int option"
  | DeleteComment uuid
  | DeleteSession uuid
  | DeleteUser uuid
  | DeleteFile uuid
  | CloseOldSessions timestamp "32 word"

text \<open>
  Modelled from the spec: the statements the session ledger runs for a heartbeat, a close
  or a resume are not among the sources. \<open>update_file_sessions\<close> stands for them: one
  \<open>UPDATE\<close> of the columns \<open>last_activity\<close>, \<open>ended_at\<close>, \<open>hash_after\<close> and \<open>resume_count\<close>
  of the session with the given id, with any values, \<open>NULL\<close> for \<open>ended_at\<close> among them.
  The statement only adds to the states that can be reached.
\<close>

definition update_file_sessions ::
  "uuid \<Rightarrow> timestamp \<Rightarrow> timestamp option \<Rightarrow> string option \<Rightarrow> int option \<Rightarrow> database
     \<Rightarrow> db_error + database" where
  "update_file_sessions sid last_activity ended_at hash_after resume_count db =
     (case varchar_null 64 hash_after of
        Inl e \<Rightarrow> Inl e
      | Inr hash \<Rightarrow>
          Inr (fst (update_file_sessions_where
                      (\<lambda>fs. fs_id fs = sid)
                      (\<lambda>fs. fs\<lparr>fs_last_activity := last_activity, fs_ended_at := ended_at,
                               fs_hash_after := hash, fs_resume_count := resume_count\<rparr>)
                      db)))"

fun exec :: "statement \<Rightarrow> database \<Rightarrow> db_error + database" where
  "exec (InsertUser u) db = insert_users db u"
| "exec (InsertFile f) db = insert_files db f"
| "exec (InsertSession fs) db = insert_file_sessions db (fs\<lparr>fs_is_commented := Some False\<rparr>)"
| "exec (InsertEvent e) db = insert_file_events db e"
| "exec (InsertComment c) db = insert_comments db c"
| "exec (UpdateSession sid la ea ha rc) db = update_file_sessions sid la ea ha rc db"
| "exec (DeleteComment cid) db = Inr (delete_comments (\<lambda>c. c_id c = cid) db)"
| "exec (DeleteSession sid) db = Inr (delete_file_sessions (\<lambda>fs. fs_id fs = sid) db)"
| "exec (DeleteUser uid) db = Inr (delete_users (\<lambda>u. u_id u = uid) db)"
| "exec (DeleteFile fid) db = Inr (delete_files (\<lambda>f. f_id f = fid) db)"
| "exec (CloseOldSessions now max_age_hours) db =
     (case close_old_sessions now max_age_hours db of
        Inl e \<Rightarrow> Inl e
      | Inr (db', closed_count) \<Rightarrow> Inr db')"

text \<open>Running statements one after the other; a statement that fails changes nothing.\<close>

fun run :: "statement list \<Rightarrow> database \<Rightarrow> database" where
  "run [] db = db"
| "run (st # sts) db = (case exec st db of Inl e \<Rightarrow> run sts db | Inr db' \<Rightarrow> run sts db')"

section \<open>The changes page of the frontend\<close>

text \<open>
  The changes page reads of every entry it is given \<open>file_name\<close>, \<open>file_path\<close>,
  \<open>username\<close>, \<open>started_at\<close> and \<open>comment\<close>, which is either missing or an object with
  \<open>content\<close> and \<open>change_type\<close>. The id of the session is kept in the entry to say which
  session it stands for.
\<close>

record change_comment =
  cc_content :: string
  cc_change_type :: string

record change =
  ch_session_id :: uuid
  ch_username :: string
  ch_file_path :: string
  ch_file_name :: string
  ch_started_at :: timestamp
  ch_comment :: "change_comment option"

text \<open>
  The page groups what it received with
  \<open>changes.reduce((acc, session) => { const date = ...; if (!acc[date]) acc[date] = [];
  acc[date].push(session); return acc; }, {})\<close> and walks \<open>Object.entries(grouped)\<close>: the
  dates in the order of their first session, each with its sessions in the order they
  came (a date string is neither an array index nor the name of a member of
  \<open>Object.prototype\<close>, so the object behaves as a plain dictionary in insertion order).
  \<open>day\<close> stands for \<open>new Date(...).toLocaleDateString()\<close>, which depends on the locale
  and the time zone of the browser.
\<close>

fun push_group :: "string \<Rightarrow> 'a \<Rightarrow> (string \<times> 'a list) list \<Rightarrow> (string \<times> 'a list) list" where
  "push_group date session [] = [(date, [session])]"
| "push_group date session ((d, sessions) # acc) =
     (if d = date then (d, sessions @ [session]) # acc
      else (d, sessions) # push_group date session acc)"

definition grouped :: "(timestamp \<Rightarrow> string) \<Rightarrow> change list \<Rightarrow> (string \<times> change list) list" where
  "grouped day changes =
     fold (\<lambda>session acc. push_group (day (ch_started_at session)) session acc) changes []"

text \<open>
  Each card shows \<open>session.comment ? session.comment.content : 'No comment'\<close> and
  \<open>session.comment ? session.comment.change_type : 'N/A'\<close>.
\<close>

definition card_comment :: "change \<Rightarrow> string" where
  "card_comment session =
     (case ch_comment session of None \<Rightarrow> ''No comment'' | Some comment \<Rightarrow> cc_content comment)"

definition card_type :: "change \<Rightarrow> string" where
  "card_type session =
     (case ch_comment session of None \<Rightarrow> ''N/A'' | Some comment \<Rightarrow> cc_change_type comment)"

section \<open>What the constraints guarantee\<close>

text \<open>The primary keys and the \<open>UNIQUE\<close> columns hold no value twice.\<close>

definition keys_ok :: "database \<Rightarrow> bool" where
  "keys_ok db \<longleftrightarrow>
     distinct (map u_id (users db)) \<and> distinct (map u_username (users db)) \<and>
     distinct (map f_id (files db)) \<and> distinct (map f_file_path (files db)) \<and>
     distinct (map fs_id (file_sessions db)) \<and>
     distinct (map fe_id (file_events db)) \<and>
     distinct (map c_id (comments db)) \<and> distinct (map c_session_id (comments db))"

text \<open>Every foreign key names a stored row.\<close>

definition refs_ok :: "database \<Rightarrow> bool" where
  "refs_ok db \<longleftrightarrow>
     set (map fs_user_id (file_sessions db)) \<subseteq> set (map u_id (users db)) \<and>
     set (map fs_file_id (file_sessions db)) \<subseteq> set (map f_id (files db)) \<and>
     set (map fe_session_id (file_events db)) \<subseteq> set (map fs_id (file_sessions db)) \<and>
     set (map c_session_id (comments db)) \<subseteq> set (map fs_id (file_sessions db)) \<and>
     set (map c_user_id (comments db)) \<subseteq> set (map u_id (users db))"

text \<open>The flag of every session says whether the session has a comment.\<close>

definition flags_in_sync :: "database \<Rightarrow> bool" where
  "flags_in_sync db \<longleftrightarrow>
     (\<forall>fs \<in> set (file_sessions db).
        fs_is_commented fs = Some (fs_id fs \<in> set (map c_session_id (comments db))))"

text \<open>The three together: what holds of every state the statements can reach.\<close>

definition consistent :: "database \<Rightarrow> bool" where
  "consistent db \<longleftrightarrow> keys_ok db \<and> refs_ok db \<and> flags_in_sync db"

text \<open>The rows of a user and of a file, by id, and the comment of a session.\<close>

definition user_of :: "database \<Rightarrow> uuid \<Rightarrow> users_row option" where
  "user_of db uid = find (\<lambda>u. u_id u = uid) (users db)"

definition file_of :: "database \<Rightarrow> uuid \<Rightarrow> files_row option" where
  "file_of db fid = find (\<lambda>f. f_id f = fid) (files db)"

definition comment_of :: "database \<Rightarrow> uuid \<Rightarrow> comments_row option" where
  "comment_of db sid = find (\<lambda>c. c_session_id c = sid) (comments db)"

text \<open>
  The row \<open>get_current_editors\<close> owes a session: its user's name, its file's path and
  name, its \<open>last_activity\<close> and its id. There is none when the user or the file is not
  stored.
\<close>

definition editor_row :: "database \<Rightarrow> file_sessions_row \<Rightarrow> current_editor option" where
  "editor_row db fs =
     (case user_of db (fs_user_id fs) of
        None \<Rightarrow> None
      | Some u \<Rightarrow>
          (case file_of db (fs_file_id fs) of
             None \<Rightarrow> None
           | Some f \<Rightarrow>
               Some \<lparr>ce_username = u_username u, ce_file_path = f_file_path f,
                     ce_file_name = f_file_name f, ce_last_activity = fs_last_activity fs,
                     ce_session_id = fs_id fs\<rparr>))"

text \<open>The path of the session's file matches the pattern.\<close>

definition path_matches ::
  "(string \<Rightarrow> string \<Rightarrow> db_error + bool) \<Rightarrow> database \<Rightarrow> string \<Rightarrow> file_sessions_row \<Rightarrow> bool" where
  "path_matches like db pattern fs =
     (case file_of db (fs_file_id fs) of
        None \<Rightarrow> False
      | Some f \<Rightarrow> like (f_file_path f) pattern = Inr True)"


section \<open>The comment binder\<close>

text \<open>
  Modelled from the spec: \<open>addComment(sessionId, authorUser, content, changeType)\<close>, the
  handler of \<open>POST /comments\<close>, is not among the sources; they hold the table it writes
  and the page that calls it. These are the errors the spec has it fail with; \<open>Storage\<close>
  carries an error of the insert into \<open>comments\<close>, for which the spec has no name.
\<close>

datatype add_comment_error =
    SessionNotFound
  | SessionStillOpen
  | AlreadyCommented
  | InvalidChangeType
  | EmptyContent
  | Storage db_error

text \<open>
  Modelled from the spec: \<open>addComment\<close> fails with \<open>EmptyContent\<close> if the content is blank.
  A content is blank when it has nothing but white space (tab, line feed, vertical tab,
  form feed, carriage return, space), the empty content included.
\<close>

definition blank :: "string \<Rightarrow> bool" where
  "blank content \<longleftrightarrow>
     (\<forall>c \<in> set content. c \<in> {CHR 0x09, CHR 0x0A, CHR 0x0B, CHR 0x0C, CHR 0x0D, CHR 0x20})"

text \<open>
  Modelled from the spec: the conditions under which \<open>addComment\<close> fails. It fails with
  \<open>SessionNotFound\<close> or \<open>SessionStillOpen\<close> if the session does not exist or its
  \<open>ended_at\<close> is null, with \<open>AlreadyCommented\<close> if a comment exists for the session, with
  \<open>InvalidChangeType\<close> if the change type is not in the enumerated set, with
  \<open>EmptyContent\<close> if the content is blank. The spec gives no order among the conditions:
  the model collects every error whose condition holds, in the order of the spec's text.
  The enumerated set is the parameter \<open>types\<close>.
\<close>

definition add_comment_errors ::
  "string list \<Rightarrow> database \<Rightarrow> uuid \<Rightarrow> string \<Rightarrow> string \<Rightarrow> add_comment_error list" where
  "add_comment_errors types db sessionId content changeType =
     (if sessionId \<notin> set (map fs_id (file_sessions db)) then [SessionNotFound] else []) @
     (if \<exists>fs \<in> set (file_sessions db). fs_id fs = sessionId \<and> fs_ended_at fs = None
        then [SessionStillOpen] else []) @
     (if sessionId \<in> set (map c_session_id (comments db)) then [AlreadyCommented] else []) @
     (if changeType \<notin> set types then [InvalidChangeType] else []) @
     (if blank content then [EmptyContent] else [])"

text \<open>
  Modelled from the spec: the call itself. When a condition of failure holds it fails
  with the errors collected. Otherwise it persists the comment, by an insert into
  \<open>comments\<close>, where the trigger sets the flag of the session; the id of the comment and
  the time of the call are the values the column defaults would draw. An error of the
  insert is passed on.
\<close>

definition addComment ::
  "string list \<Rightarrow> database \<Rightarrow> uuid \<Rightarrow> timestamp \<Rightarrow> uuid \<Rightarrow> uuid \<Rightarrow> string \<Rightarrow> string
     \<Rightarrow> add_comment_error list + database" where
  "addComment types db commentId now sessionId authorUser content changeType =
     (case add_comment_errors types db sessionId content changeType of
        [] \<Rightarrow>
          (case insert_comments db
                  \<lparr>c_id = commentId, c_session_id = sessionId, c_user_id = authorUser,
                   c_content = content, c_change_type = changeType, c_created_at = Some now\<rparr> of
             Inl e \<Rightarrow> Inl [Storage e]
           | Inr db' \<Rightarrow> Inr db')
      | errors \<Rightarrow> Inl errors)"

text \<open>
  Modelled from the spec: a failed operation affects only its own request. The stored
  state after a call of \<open>addComment\<close> is the new state when the call returns, and the
  state before the call when it fails.
\<close>

definition after_addComment ::
  "string list \<Rightarrow> database \<Rightarrow> uuid \<Rightarrow> timestamp \<Rightarrow> uuid \<Rightarrow> uuid \<Rightarrow> string \<Rightarrow> string \<Rightarrow> database" where
  "after_addComment types db commentId now sessionId authorUser content changeType =
     (case addComment types db commentId now sessionId authorUser content changeType of
        Inl errors \<Rightarrow> db
      | Inr db' \<Rightarrow> db')"

section \<open>The change timeline\<close>

text \<open>
  Modelled from the spec: \<open>changeTimeline()\<close>, the handler of \<open>GET /sessions/comments\<close>,
  is not among the sources; they hold the tables it reads and the page that groups what
  it serves. The spec has it give the list of all sessions, each with its bound comment
  if present. The model serves one entry for each row of the join of the sessions with
  their users and files, in the shape the changes page reads.
\<close>

definition served_changes :: "database \<Rightarrow> change list" where
  "served_changes db =
     map (\<lambda>(fs, u, f).
            \<lparr>ch_session_id = fs_id fs, ch_username = u_username u,
             ch_file_path = f_file_path f, ch_file_name = f_file_name f,
             ch_started_at = fs_started_at fs,
             ch_comment =
               map_option (\<lambda>c. \<lparr>cc_content = c_content c, cc_change_type = c_change_type c\<rparr>)
                          (comment_of db (fs_id fs))\<rparr>)
         (sessions_users_files db)"

text \<open>
  Modelled from the spec: \<open>changeTimeline()\<close> gives its entries grouped by the calendar
  day of \<open>started_at\<close>. The model groups the served entries as the changes page groups
  what it receives.
\<close>

definition changeTimeline :: "(timestamp \<Rightarrow> string) \<Rightarrow> database \<Rightarrow> (string \<times> change list) list" where
  "changeTimeline day db = grouped day (served_changes db)"

section \<open>Example states\<close>

definition alice :: users_row where
  "alice = \<lparr>u_id = 1, u_username = ''alice'', u_email = None, u_created_at = Some 0\<rparr>"

definition a_py :: files_row where
  "a_py = \<lparr>f_id = 1, f_file_path = ''/a.py'', f_file_name = ''a.py'', f_created_at = Some 0\<rparr>"

definition bob :: users_row where
  "bob = \<lparr>u_id = 2, u_username = ''bob'', u_email = Some ''bob@example.com'', u_created_at = Some 0\<rparr>"

definition readme_md :: files_row where
  "readme_md = \<lparr>f_id = 2, f_file_path = ''/docs/readme.md'', f_file_name = ''readme.md'',
                 f_created_at = Some 0\<rparr>"

text \<open>A session row as an \<open>INSERT\<close> that names neither \<open>is_commented\<close> nor
  \<open>resume_count\<close> stores it: both columns take their declared defaults.\<close>

definition new_session ::
  "uuid \<Rightarrow> uuid \<Rightarrow> uuid \<Rightarrow> timestamp \<Rightarrow> timestamp \<Rightarrow> timestamp option \<Rightarrow> file_sessions_row" where
  "new_session sid uid fid started_at last_activity ended_at =
     \<lparr>fs_id = sid, fs_user_id = uid, fs_file_id = fid, fs_started_at = started_at,
      fs_last_activity = last_activity, fs_ended_at = ended_at, fs_hash_before = None,
      fs_hash_after = None, fs_is_commented = Some False, fs_resume_count = Some 0\<rparr>"

text \<open>
  Times of the examples, in hours after the origin of the timestamps. At hour 100,
  alice's session on \<open>/a.py\<close> had its last heartbeat at hour 10, bob's session on the same
  file has its last heartbeat at hour 100 itself, and alice's session on the readme ended
  at hour 6.
\<close>

definition hour :: "int \<Rightarrow> timestamp" where
  "hour n = n * 3600000000"

definition db_sessions :: database where
  "db_sessions =
     \<lparr>users = [alice, bob], files = [a_py, readme_md],
      file_sessions = [new_session 1 1 1 0 (hour 10) None,
                       new_session 2 2 1 (hour 99) (hour 100) None,
                       new_session 3 1 2 (hour 5) (hour 6) (Some (hour 6))],
      file_events = [], comments = []\<rparr>"

text \<open>The same state once alice's session on \<open>/a.py\<close> is closed at its last heartbeat.\<close>

definition db_sessions_reclaimed :: database where
  "db_sessions_reclaimed =
     \<lparr>users = [alice, bob], files = [a_py, readme_md],
      file_sessions = [new_session 1 1 1 0 (hour 10) (Some (hour 10)),
                       new_session 2 2 1 (hour 99) (hour 100) None,
                       new_session 3 1 2 (hour 5) (hour 6) (Some (hour 6))],
      file_events = [], comments = []\<rparr>"

text \<open>
  Alice edits \<open>/a.py\<close> from hour 0 to hour 2 and then comments the session; in the second
  story her session is still open.
\<close>

definition fixed_bug :: comments_row where
  "fixed_bug = \<lparr>c_id = 1, c_session_id = 1, c_user_id = 1, c_content = ''fixed bug'',
                 c_change_type = ''bugfix'', c_created_at = Some (hour 3)\<rparr>"

definition closed_session_story :: "statement list" where
  "closed_session_story =
     [InsertUser alice, InsertFile a_py, InsertSession (new_session 1 1 1 0 (hour 1) (Some (hour 2)))]"

definition db_closed :: database where
  "db_closed = \<lparr>users = [alice], files = [a_py],
                 file_sessions = [new_session 1 1 1 0 (hour 1) (Some (hour 2))],
                 file_events = [], comments = []\<rparr>"


definition db_open :: database where
  "db_open = \<lparr>users = [alice], files = [a_py],
               file_sessions = [new_session 1 1 1 0 (hour 1) None],
               file_events = [], comments = []\<rparr>"

text \<open>
  Alice's commented session of the first day and a second session of hers, a day later,
  that nobody commented. The days are those of a browser for which the origin of the
  timestamps is the midnight that begins 1/1/2000.
\<close>

definition db_timeline :: database where
  "db_timeline =
     \<lparr>users = [alice], files = [a_py],
      file_sessions = [(new_session 1 1 1 0 (hour 1) (Some (hour 2)))\<lparr>fs_is_commented := Some True\<rparr>,
                       new_session 2 1 1 (hour 30) (hour 31) (Some (hour 31))],
      file_events = [], comments = [fixed_bug]\<rparr>"

definition example_day :: "timestamp \<Rightarrow> string" where
  "example_day t = (if t < hour 24 then ''1/1/2000'' else ''1/2/2000'')"

text \<open>
  Modelled from the spec: the list served by \<open>GET /change-types\<close> is not among the
  sources. The spec names these five change types as examples of the enumerated set; the
  schema itself names only the default \<open>'other'\<close>.
\<close>

definition change_types :: "string list" where
  "change_types = [''bugfix'', ''feature'', ''refactor'', ''docs'', ''other'']"

section \<open>Deletes, table by table\<close>

lemma fold_trigger_delete:
  "fold (update_session_commented_flag TG_DELETE) cs db =
     db\<lparr>file_sessions :=
          map (\<lambda>fs. if fs_id fs \<in> set (map c_session_id cs) then fs\<lparr>fs_is_commented := Some False\<rparr> else fs)
              (file_sessions db)\<rparr>"
proof (induction cs arbitrary: db)
  case Nil
  then show ?case by simp
next
  case (Cons c cs)
  let ?f = "update_session_commented_flag TG_DELETE"
  have "fold ?f (c # cs) db = fold ?f cs (?f c db)"
    by (simp only: fold_simps comp_apply)
  also have "\<dots> = (?f c db)\<lparr>file_sessions :=
          map (\<lambda>fs. if fs_id fs \<in> set (map c_session_id cs) then fs\<lparr>fs_is_commented := Some False\<rparr> else fs)
              (file_sessions (?f c db))\<rparr>"
    by (rule Cons.IH)
  also have "\<dots> = db\<lparr>file_sessions :=
          map (\<lambda>fs. if fs_id fs \<in> set (map c_session_id (c # cs)) then fs\<lparr>fs_is_commented := Some False\<rparr> else fs)
              (file_sessions db)\<rparr>"
    by (auto simp: comp_def)
  finally show ?case .
qed

lemma delete_comments_eq:
  "delete_comments P db =
     db\<lparr>file_sessions :=
          map (\<lambda>fs. if fs_id fs \<in> set (map c_session_id (filter P (comments db)))
                    then fs\<lparr>fs_is_commented := Some False\<rparr> else fs)
              (file_sessions db),
        comments := filter (\<lambda>c. \<not> P c) (comments db)\<rparr>"
  by (simp add: delete_comments_def fold_trigger_delete)

lemma flag_keeps_keys:
  "fs_id \<circ> (\<lambda>fs. if Q fs then fs\<lparr>fs_is_commented := b\<rparr> else fs) = fs_id"
  "fs_user_id \<circ> (\<lambda>fs. if Q fs then fs\<lparr>fs_is_commented := b\<rparr> else fs) = fs_user_id"
  "fs_file_id \<circ> (\<lambda>fs. if Q fs then fs\<lparr>fs_is_commented := b\<rparr> else fs) = fs_file_id"
  by (auto simp: fun_eq_iff)

lemma delete_comments_tables:
  "users (delete_comments P db) = users db"
  "files (delete_comments P db) = files db"
  "file_events (delete_comments P db) = file_events db"
  "comments (delete_comments P db) = filter (\<lambda>c. \<not> P c) (comments db)"
  "map fs_id (file_sessions (delete_comments P db)) = map fs_id (file_sessions db)"
  "map fs_user_id (file_sessions (delete_comments P db)) = map fs_user_id (file_sessions db)"
  "map fs_file_id (file_sessions (delete_comments P db)) = map fs_file_id (file_sessions db)"
  by (simp_all add: delete_comments_eq flag_keeps_keys)

lemma delete_file_sessions_steps:
  "delete_file_sessions P db =
     delete_comments (\<lambda>c. c_session_id c \<in> set (map fs_id (filter P (file_sessions db))))
       (db\<lparr>file_sessions := filter (\<lambda>fs. \<not> P fs) (file_sessions db),
           file_events := filter (\<lambda>e. fe_session_id e \<notin> set (map fs_id (filter P (file_sessions db))))
                                 (file_events db)\<rparr>)"
  by (simp add: delete_file_sessions_def Let_def)

lemma delete_file_sessions_tables:
  "users (delete_file_sessions P db) = users db"
  "files (delete_file_sessions P db) = files db"
  "file_events (delete_file_sessions P db) =
     filter (\<lambda>e. fe_session_id e \<notin> set (map fs_id (filter P (file_sessions db)))) (file_events db)"
  "comments (delete_file_sessions P db) =
     filter (\<lambda>c. c_session_id c \<notin> set (map fs_id (filter P (file_sessions db)))) (comments db)"
  "map fs_id (file_sessions (delete_file_sessions P db)) = map fs_id (filter (\<lambda>fs. \<not> P fs) (file_sessions db))"
  "map fs_user_id (file_sessions (delete_file_sessions P db)) = map fs_user_id (filter (\<lambda>fs. \<not> P fs) (file_sessions db))"
  "map fs_file_id (file_sessions (delete_file_sessions P db)) = map fs_file_id (filter (\<lambda>fs. \<not> P fs) (file_sessions db))"
  by (simp_all add: delete_file_sessions_steps delete_comments_tables)

lemma delete_users_steps:
  "delete_users P db =
     delete_comments (\<lambda>c. c_user_id c \<in> set (map u_id (filter P (users db))))
       (delete_file_sessions (\<lambda>fs. fs_user_id fs \<in> set (map u_id (filter P (users db))))
          (db\<lparr>users := filter (\<lambda>u. \<not> P u) (users db)\<rparr>))"
  by (simp add: delete_users_def Let_def)

lemma delete_files_steps:
  "delete_files P db =
     delete_file_sessions (\<lambda>fs. fs_file_id fs \<in> set (map f_id (filter P (files db))))
       (db\<lparr>files := filter (\<lambda>f. \<not> P f) (files db)\<rparr>)"
  by (simp add: delete_files_def Let_def)

section \<open>Keys\<close>

lemma keys_ok_delete_comments: "keys_ok db \<Longrightarrow> keys_ok (delete_comments P db)"
  by (simp add: keys_ok_def delete_comments_tables distinct_map_filter)

lemma keys_ok_delete_file_sessions: "keys_ok db \<Longrightarrow> keys_ok (delete_file_sessions P db)"
  by (simp add: keys_ok_def delete_file_sessions_tables distinct_map_filter)

lemma keys_ok_delete_users: "keys_ok db \<Longrightarrow> keys_ok (delete_users P db)"
  unfolding delete_users_steps
  by (intro keys_ok_delete_comments keys_ok_delete_file_sessions)
     (simp add: keys_ok_def distinct_map_filter)

lemma keys_ok_delete_files: "keys_ok db \<Longrightarrow> keys_ok (delete_files P db)"
  unfolding delete_files_steps
  by (intro keys_ok_delete_file_sessions) (simp add: keys_ok_def distinct_map_filter)

section \<open>Flags\<close>

lemma flags_in_sync_delete_comments:
  assumes d: "distinct (map c_session_id (comments db))" and s: "flags_in_sync db"
  shows "flags_in_sync (delete_comments P db)"
proof -
  have uniq: "c = c'"
    if "c \<in> set (comments db)" "c' \<in> set (comments db)" "c_session_id c = c_session_id c'" for c c'
    using d that by (meson distinct_map inj_onD)
  let ?gone = "set (map c_session_id (filter P (comments db)))"
  let ?left = "set (map c_session_id (filter (\<lambda>c. \<not> P c) (comments db)))"
  have left: "(k \<in> ?left) = (k \<in> set (map c_session_id (comments db)) \<and> k \<notin> ?gone)" for k
    using uniq by auto
  show ?thesis
    unfolding flags_in_sync_def
  proof
    fix fs' assume "fs' \<in> set (file_sessions (delete_comments P db))"
    then obtain fs where fs: "fs \<in> set (file_sessions db)"
      and fs': "fs' = (if fs_id fs \<in> ?gone then fs\<lparr>fs_is_commented := Some False\<rparr> else fs)"
      by (auto simp: delete_comments_eq)
    have old: "fs_is_commented fs = Some (fs_id fs \<in> set (map c_session_id (comments db)))"
      using s fs by (simp add: flags_in_sync_def)
    have "fs_is_commented fs' = Some (fs_id fs' \<in> ?left)"
      unfolding left using old by (simp add: fs')
    then show "fs_is_commented fs' = Some (fs_id fs' \<in> set (map c_session_id (comments (delete_comments P db))))"
      by (simp add: delete_comments_tables)
  qed
qed

lemma flags_in_sync_delete_file_sessions:
  assumes "distinct (map c_session_id (comments db))" and "flags_in_sync db"
  shows "flags_in_sync (delete_file_sessions P db)"
  unfolding delete_file_sessions_steps
proof (rule flags_in_sync_delete_comments)
  show "distinct (map c_session_id (comments (db\<lparr>file_sessions := filter (\<lambda>fs. \<not> P fs) (file_sessions db),
           file_events := filter (\<lambda>e. fe_session_id e \<notin> set (map fs_id (filter P (file_sessions db))))
                                 (file_events db)\<rparr>)))"
    using assms(1) by simp
  show "flags_in_sync (db\<lparr>file_sessions := filter (\<lambda>fs. \<not> P fs) (file_sessions db),
           file_events := filter (\<lambda>e. fe_session_id e \<notin> set (map fs_id (filter P (file_sessions db))))
                                 (file_events db)\<rparr>)"
    using assms(2) by (simp add: flags_in_sync_def)
qed

lemma flags_in_sync_delete_users:
  assumes "distinct (map c_session_id (comments db))" and "flags_in_sync db"
  shows "flags_in_sync (delete_users P db)"
  unfolding delete_users_steps
proof (rule flags_in_sync_delete_comments)
  let ?db1 = "db\<lparr>users := filter (\<lambda>u. \<not> P u) (users db)\<rparr>"
  have 1: "flags_in_sync ?db1" using assms(2) by (simp add: flags_in_sync_def)
  have d1: "distinct (map c_session_id (comments ?db1))" using assms(1) by simp
  show "flags_in_sync (delete_file_sessions (\<lambda>fs. fs_user_id fs \<in> set (map u_id (filter P (users db)))) ?db1)"
    by (rule flags_in_sync_delete_file_sessions [OF d1 1])
  show "distinct (map c_session_id (comments (delete_file_sessions (\<lambda>fs. fs_user_id fs \<in> set (map u_id (filter P (users db)))) ?db1)))"
    using assms(1) by (simp add: delete_file_sessions_tables distinct_map_filter)
qed

lemma flags_in_sync_delete_files:
  assumes "distinct (map c_session_id (comments db))" and "flags_in_sync db"
  shows "flags_in_sync (delete_files P db)"
  unfolding delete_files_steps
proof (rule flags_in_sync_delete_file_sessions)
  show "distinct (map c_session_id (comments (db\<lparr>files := filter (\<lambda>f. \<not> P f) (files db)\<rparr>)))"
    using assms(1) by simp
  show "flags_in_sync (db\<lparr>files := filter (\<lambda>f. \<not> P f) (files db)\<rparr>)"
    using assms(2) by (simp add: flags_in_sync_def)
qed

section \<open>Foreign keys\<close>

lemma image_filter_sub:
  assumes "f ` A \<subseteq> g ` B"
    and "\<And>x. x \<in> A \<Longrightarrow> Q x \<Longrightarrow> f x \<notin> g ` {y \<in> B. P y}"
  shows "f ` {x \<in> A. Q x} \<subseteq> g ` {y \<in> B. \<not> P y}"
proof
  fix k assume "k \<in> f ` {x \<in> A. Q x}"
  then obtain x where x: "x \<in> A" "k = f x" "Q x" by auto
  from assms(1) x obtain y where y: "y \<in> B" "f x = g y" by auto
  from assms(2) x have "f x \<notin> g ` {y \<in> B. P y}" by auto
  with y have "\<not> P y" by auto
  with y x show "k \<in> g ` {y \<in> B. \<not> P y}" by auto
qed

lemma refs_ok_parts:
  assumes "refs_ok db"
  shows "fs_user_id ` set (file_sessions db) \<subseteq> u_id ` set (users db)"
    and "fs_file_id ` set (file_sessions db) \<subseteq> f_id ` set (files db)"
    and "fe_session_id ` set (file_events db) \<subseteq> fs_id ` set (file_sessions db)"
    and "c_session_id ` set (comments db) \<subseteq> fs_id ` set (file_sessions db)"
    and "c_user_id ` set (comments db) \<subseteq> u_id ` set (users db)"
  using assms by (simp_all add: refs_ok_def)

lemma refs_ok_delete_comments:
  assumes "refs_ok db"
  shows "refs_ok (delete_comments P db)"
proof -
  note a = refs_ok_parts [OF assms]
  show ?thesis
    unfolding refs_ok_def delete_comments_tables
    apply simp
    apply (intro conjI)
    subgoal using a(1) by auto
    subgoal using a(2) by auto
    subgoal using a(3) by auto
    subgoal using a(4) by auto
    subgoal using a(5) by auto
    done
qed

lemma refs_ok_delete_file_sessions:
  assumes "refs_ok db"
  shows "refs_ok (delete_file_sessions P db)"
proof -
  note a = refs_ok_parts [OF assms]
  show ?thesis
    unfolding refs_ok_def delete_file_sessions_tables
    apply simp
    apply (intro conjI)
    subgoal using a(1) by auto
    subgoal using a(2) by auto
    subgoal by (rule image_filter_sub [OF a(3)]) simp
    subgoal by (rule image_filter_sub [OF a(4)]) simp
    subgoal using a(5) by auto
    done
qed

lemma refs_ok_delete_users:
  assumes "refs_ok db"
  shows "refs_ok (delete_users P db)"
proof -
  note a = refs_ok_parts [OF assms]
  show ?thesis
    unfolding refs_ok_def delete_users_steps delete_comments_tables delete_file_sessions_tables
    apply simp
    apply (intro conjI)
    subgoal by (rule image_filter_sub [OF a(1)]) simp
    subgoal using a(2) by auto
    subgoal by (rule image_filter_sub [OF a(3)]) simp
    subgoal by (rule image_filter_sub [OF a(4)]) simp
    subgoal by (rule image_filter_sub [OF a(5)]) simp
    done
qed

lemma refs_ok_delete_files:
  assumes "refs_ok db"
  shows "refs_ok (delete_files P db)"
proof -
  note a = refs_ok_parts [OF assms]
  show ?thesis
    unfolding refs_ok_def delete_files_steps delete_file_sessions_tables
    apply simp
    apply (intro conjI)
    subgoal using a(1) by auto
    subgoal by (rule image_filter_sub [OF a(2)]) simp
    subgoal by (rule image_filter_sub [OF a(3)]) simp
    subgoal by (rule image_filter_sub [OF a(4)]) simp
    subgoal using a(5) by auto
    done
qed

section \<open>Inserts and updates\<close>

lemma map_same_key:
  "(\<And>x. k (g x) = k x) \<Longrightarrow> map k (map g xs) = map k xs"
  by (induction xs) auto

lemma sessions_map_keeps:
  assumes "\<And>fs. fs_id (g fs) = fs_id fs" "\<And>fs. fs_user_id (g fs) = fs_user_id fs"
    "\<And>fs. fs_file_id (g fs) = fs_file_id fs" "\<And>fs. fs_is_commented (g fs) = fs_is_commented fs"
  shows "keys_ok db \<Longrightarrow> keys_ok (db\<lparr>file_sessions := map g (file_sessions db)\<rparr>)"
    and "refs_ok db \<Longrightarrow> refs_ok (db\<lparr>file_sessions := map g (file_sessions db)\<rparr>)"
    and "flags_in_sync db \<Longrightarrow> flags_in_sync (db\<lparr>file_sessions := map g (file_sessions db)\<rparr>)"
proof -
  have k: "map fs_id (map g xs) = map fs_id xs" "map fs_user_id (map g xs) = map fs_user_id xs"
    "map fs_file_id (map g xs) = map fs_file_id xs" for xs
    using assms by (simp_all add: map_same_key)
  show "keys_ok db \<Longrightarrow> keys_ok (db\<lparr>file_sessions := map g (file_sessions db)\<rparr>)"
    unfolding keys_ok_def by (simp add: k del: map_map)
  show "refs_ok db \<Longrightarrow> refs_ok (db\<lparr>file_sessions := map g (file_sessions db)\<rparr>)"
    unfolding refs_ok_def by (simp add: k del: map_map)
  show "flags_in_sync db \<Longrightarrow> flags_in_sync (db\<lparr>file_sessions := map g (file_sessions db)\<rparr>)"
    unfolding flags_in_sync_def using assms by auto
qed

lemma update_file_sessions_where_keeps:
  assumes "\<And>fs. fs_id (g fs) = fs_id fs" "\<And>fs. fs_user_id (g fs) = fs_user_id fs"
    "\<And>fs. fs_file_id (g fs) = fs_file_id fs" "\<And>fs. fs_is_commented (g fs) = fs_is_commented fs"
  shows "keys_ok db \<Longrightarrow> keys_ok (fst (update_file_sessions_where P g db))"
    and "refs_ok db \<Longrightarrow> refs_ok (fst (update_file_sessions_where P g db))"
    and "flags_in_sync db \<Longrightarrow> flags_in_sync (fst (update_file_sessions_where P g db))"
  unfolding update_file_sessions_where_def fst_conv
  by (rule sessions_map_keeps; simp add: assms)+

lemma update_file_sessions_keeps:
  assumes "update_file_sessions sid la ea ha rc db = Inr db'"
  shows "keys_ok db \<Longrightarrow> keys_ok db'" and "refs_ok db \<Longrightarrow> refs_ok db'"
    and "flags_in_sync db \<Longrightarrow> flags_in_sync db'"
proof -
  from assms obtain hash where
    db': "db' = fst (update_file_sessions_where (\<lambda>fs. fs_id fs = sid)
                 (\<lambda>fs. fs\<lparr>fs_last_activity := la, fs_ended_at := ea,
                          fs_hash_after := hash, fs_resume_count := rc\<rparr>) db)"
    by (auto simp: update_file_sessions_def split: sum.splits)
  show "keys_ok db \<Longrightarrow> keys_ok db'"
    unfolding db' by (rule update_file_sessions_where_keeps; simp)
  show "refs_ok db \<Longrightarrow> refs_ok db'"
    unfolding db' by (rule update_file_sessions_where_keeps; simp)
  show "flags_in_sync db \<Longrightarrow> flags_in_sync db'"
    unfolding db' by (rule update_file_sessions_where_keeps; simp)
qed

lemma close_old_sessions_result:
  assumes "close_old_sessions now h db = Inr (db', n)"
  shows "(db', n) = update_file_sessions_where
           (\<lambda>fs. fs_ended_at fs = None \<and> fs_last_activity fs < now - sint h * 3600000000)
           (\<lambda>fs. fs\<lparr>fs_ended_at := Some (fs_last_activity fs)\<rparr>) db"
    and "MIN_TIMESTAMP \<le> now - sint h * 3600000000"
    and "now - sint h * 3600000000 < END_TIMESTAMP"
  using assms
  by (auto simp: close_old_sessions_def timestamp_mi_interval_def hours_interval_def
           split: if_splits)

lemma close_old_sessions_keeps:
  assumes "close_old_sessions now h db = Inr (db', n)"
  shows "keys_ok db \<Longrightarrow> keys_ok db'" and "refs_ok db \<Longrightarrow> refs_ok db'"
    and "flags_in_sync db \<Longrightarrow> flags_in_sync db'"
proof -
  from close_old_sessions_result(1) [OF assms]
  have db': "db' = fst (update_file_sessions_where
           (\<lambda>fs. fs_ended_at fs = None \<and> fs_last_activity fs < now - sint h * 3600000000)
           (\<lambda>fs. fs\<lparr>fs_ended_at := Some (fs_last_activity fs)\<rparr>) db)"
    by (metis fst_conv)
  show "keys_ok db \<Longrightarrow> keys_ok db'"
    unfolding db' by (rule update_file_sessions_where_keeps; simp)
  show "refs_ok db \<Longrightarrow> refs_ok db'"
    unfolding db' by (rule update_file_sessions_where_keeps; simp)
  show "flags_in_sync db \<Longrightarrow> flags_in_sync db'"
    unfolding db' by (rule update_file_sessions_where_keeps; simp)
qed

lemma varchar_fits: "length s \<le> n \<Longrightarrow> varchar n s = Inr s"
  by (simp add: varchar_def)

lemma varchar_null_fits:
  "(case v of None \<Rightarrow> True | Some s \<Rightarrow> length s \<le> n) \<Longrightarrow> varchar_null n v = Inr v"
  by (cases v) (simp_all add: varchar_null_def varchar_fits)

lemma coerce_file_sessions_keeps:
  assumes "coerce_file_sessions row = Inr fs"
  shows "fs_id fs = fs_id row" "fs_user_id fs = fs_user_id row" "fs_file_id fs = fs_file_id row"
    "fs_started_at fs = fs_started_at row" "fs_last_activity fs = fs_last_activity row"
    "fs_ended_at fs = fs_ended_at row" "fs_is_commented fs = fs_is_commented row"
    "fs_resume_count fs = fs_resume_count row"
  using assms by (auto simp: coerce_file_sessions_def split: sum.splits)

lemma coerce_comments_keeps:
  assumes "coerce_comments row = Inr c"
  shows "c_id c = c_id row" "c_session_id c = c_session_id row" "c_user_id c = c_user_id row"
    "c_content c = c_content row" "c_created_at c = c_created_at row"
  using assms by (auto simp: coerce_comments_def split: sum.splits)

lemma coerce_comments_fits:
  "length (c_change_type row) \<le> 50 \<Longrightarrow> coerce_comments row = Inr row"
  by (simp add: coerce_comments_def varchar_def)

lemma insert_users_keeps:
  assumes "insert_users db row = Inr db'"
  shows "keys_ok db \<Longrightarrow> keys_ok db'" and "refs_ok db \<Longrightarrow> refs_ok db'"
    and "flags_in_sync db \<Longrightarrow> flags_in_sync db'"
proof -
  from assms obtain u where db': "db' = db\<lparr>users := users db @ [u]\<rparr>"
    and new: "u_id u \<notin> set (map u_id (users db))" "u_username u \<notin> set (map u_username (users db))"
    by (auto simp: insert_users_def split: if_splits sum.splits)
  show "keys_ok db \<Longrightarrow> keys_ok db'" using new by (simp add: db' keys_ok_def)
  show "refs_ok db \<Longrightarrow> refs_ok db'" unfolding db' refs_ok_def by auto
  show "flags_in_sync db \<Longrightarrow> flags_in_sync db'" by (simp add: db' flags_in_sync_def)
qed

lemma insert_files_keeps:
  assumes "insert_files db row = Inr db'"
  shows "keys_ok db \<Longrightarrow> keys_ok db'" and "refs_ok db \<Longrightarrow> refs_ok db'"
    and "flags_in_sync db \<Longrightarrow> flags_in_sync db'"
proof -
  from assms obtain f where db': "db' = db\<lparr>files := files db @ [f]\<rparr>"
    and new: "f_id f \<notin> set (map f_id (files db))" "f_file_path f \<notin> set (map f_file_path (files db))"
    by (auto simp: insert_files_def split: if_splits sum.splits)
  show "keys_ok db \<Longrightarrow> keys_ok db'" using new by (simp add: db' keys_ok_def)
  show "refs_ok db \<Longrightarrow> refs_ok db'" unfolding db' refs_ok_def by auto
  show "flags_in_sync db \<Longrightarrow> flags_in_sync db'" by (simp add: db' flags_in_sync_def)
qed

lemma insert_file_events_keeps:
  assumes "insert_file_events db row = Inr db'"
  shows "keys_ok db \<Longrightarrow> keys_ok db'" and "refs_ok db \<Longrightarrow> refs_ok db'"
    and "flags_in_sync db \<Longrightarrow> flags_in_sync db'"
proof -
  from assms obtain e where db': "db' = db\<lparr>file_events := file_events db @ [e]\<rparr>"
    and new: "fe_id e \<notin> set (map fe_id (file_events db))"
    and ref: "fe_session_id e \<in> set (map fs_id (file_sessions db))"
    by (auto simp: insert_file_events_def split: if_splits sum.splits)
  show "keys_ok db \<Longrightarrow> keys_ok db'" using new by (simp add: db' keys_ok_def)
  show "refs_ok db \<Longrightarrow> refs_ok db'" using ref unfolding db' refs_ok_def by simp
  show "flags_in_sync db \<Longrightarrow> flags_in_sync db'" by (simp add: db' flags_in_sync_def)
qed

lemma insert_file_sessions_result:
  assumes "insert_file_sessions db row = Inr db'"
  shows "\<exists>fs. coerce_file_sessions row = Inr fs \<and>
              db' = db\<lparr>file_sessions := file_sessions db @ [fs]\<rparr>"
    and "fs_id row \<notin> set (map fs_id (file_sessions db))"
    and "fs_user_id row \<in> set (map u_id (users db))"
    and "fs_file_id row \<in> set (map f_id (files db))"
  using assms
  by (auto simp: insert_file_sessions_def coerce_file_sessions_keeps split: if_splits sum.splits)

lemma insert_file_sessions_keeps:
  assumes "insert_file_sessions db row = Inr db'"
  shows "keys_ok db \<Longrightarrow> keys_ok db'" and "refs_ok db \<Longrightarrow> refs_ok db'"
    and "refs_ok db \<Longrightarrow> flags_in_sync db \<Longrightarrow> fs_is_commented row = Some False \<Longrightarrow> flags_in_sync db'"
proof -
  from insert_file_sessions_result [OF assms] obtain fs where
    c: "coerce_file_sessions row = Inr fs"
    and db': "db' = db\<lparr>file_sessions := file_sessions db @ [fs]\<rparr>"
    and new: "fs_id row \<notin> set (map fs_id (file_sessions db))"
    and ref: "fs_user_id row \<in> set (map u_id (users db))" "fs_file_id row \<in> set (map f_id (files db))"
    by blast
  note k = coerce_file_sessions_keeps [OF c]
  show "keys_ok db \<Longrightarrow> keys_ok db'" using new by (simp add: db' keys_ok_def k)
  show "refs_ok db \<Longrightarrow> refs_ok db'" using ref unfolding db' refs_ok_def by (auto simp: k)
  show "refs_ok db \<Longrightarrow> flags_in_sync db \<Longrightarrow> fs_is_commented row = Some False \<Longrightarrow> flags_in_sync db'"
    using new unfolding db' refs_ok_def flags_in_sync_def by (auto simp: k)
qed

lemma insert_comments_result:
  assumes "insert_comments db row = Inr db'"
  shows "\<exists>c. coerce_comments row = Inr c \<and>
           db' = db\<lparr>file_sessions :=
                   map (\<lambda>fs. if fs_id fs = c_session_id row then fs\<lparr>fs_is_commented := Some True\<rparr> else fs)
                       (file_sessions db),
                 comments := comments db @ [c]\<rparr>"
    and "c_id row \<notin> set (map c_id (comments db))"
    and "c_session_id row \<notin> set (map c_session_id (comments db))"
    and "c_session_id row \<in> set (map fs_id (file_sessions db))"
    and "c_user_id row \<in> set (map u_id (users db))"
  using assms
  by (auto simp: insert_comments_def coerce_comments_keeps split: if_splits sum.splits)

lemma insert_comments_keeps:
  assumes "insert_comments db row = Inr db'"
  shows "keys_ok db \<Longrightarrow> keys_ok db'" and "refs_ok db \<Longrightarrow> refs_ok db'"
    and "flags_in_sync db \<Longrightarrow> flags_in_sync db'"
proof -
  note r = insert_comments_result [OF assms]
  from r(1) obtain c where c: "coerce_comments row = Inr c"
    and db': "db' = db\<lparr>file_sessions :=
                   map (\<lambda>fs. if fs_id fs = c_session_id row then fs\<lparr>fs_is_commented := Some True\<rparr> else fs)
                       (file_sessions db),
                 comments := comments db @ [c]\<rparr>"
    by blast
  note k = coerce_comments_keeps [OF c]
  show "keys_ok db \<Longrightarrow> keys_ok db'"
    using r(2,3) unfolding db' keys_ok_def by (simp add: flag_keeps_keys k)
  show "refs_ok db \<Longrightarrow> refs_ok db'"
    using r(4,5) unfolding db' refs_ok_def by (simp add: flag_keeps_keys k)
  show "flags_in_sync db \<Longrightarrow> flags_in_sync db'"
    unfolding db' flags_in_sync_def by (auto simp: k)
qed

section \<open>Every reachable state is consistent\<close>

lemma consistent_empty_db: "consistent empty_db"
  by (simp add: consistent_def keys_ok_def refs_ok_def flags_in_sync_def empty_db_def)

lemma exec_keeps:
  assumes "consistent db" and "exec st db = Inr db'"
  shows "consistent db'"
proof -
  from assms(1) have k: "keys_ok db" and r: "refs_ok db" and f: "flags_in_sync db"
    by (simp_all add: consistent_def)
  from k have d: "distinct (map c_session_id (comments db))" by (simp add: keys_ok_def)
  show ?thesis
  proof (cases st)
    case (InsertUser u)
    with assms(2) have "insert_users db u = Inr db'" by simp
    from insert_users_keeps [OF this] k r f show ?thesis by (simp add: consistent_def)
  next
    case (InsertFile x)
    with assms(2) have "insert_files db x = Inr db'" by simp
    from insert_files_keeps [OF this] k r f show ?thesis by (simp add: consistent_def)
  next
    case (InsertSession fs)
    with assms(2) have "insert_file_sessions db (fs\<lparr>fs_is_commented := Some False\<rparr>) = Inr db'"
      by simp
    from insert_file_sessions_keeps [OF this] k r f show ?thesis by (simp add: consistent_def)
  next
    case (InsertEvent e)
    with assms(2) have "insert_file_events db e = Inr db'" by simp
    from insert_file_events_keeps [OF this] k r f show ?thesis by (simp add: consistent_def)
  next
    case (InsertComment c)
    with assms(2) have "insert_comments db c = Inr db'" by simp
    from insert_comments_keeps [OF this] k r f show ?thesis by (simp add: consistent_def)
  next
    case (UpdateSession sid la ea ha rc)
    with assms(2) have "update_file_sessions sid la ea ha rc db = Inr db'" by simp
    from update_file_sessions_keeps [OF this] k r f show ?thesis by (simp add: consistent_def)
  next
    case (DeleteComment cid)
    with assms(2) have "db' = delete_comments (\<lambda>c. c_id c = cid) db" by simp
    with keys_ok_delete_comments [OF k] refs_ok_delete_comments [OF r]
      flags_in_sync_delete_comments [OF d f]
    show ?thesis by (simp add: consistent_def)
  next
    case (DeleteSession sid)
    with assms(2) have "db' = delete_file_sessions (\<lambda>fs. fs_id fs = sid) db" by simp
    with keys_ok_delete_file_sessions [OF k] refs_ok_delete_file_sessions [OF r]
      flags_in_sync_delete_file_sessions [OF d f]
    show ?thesis by (simp add: consistent_def)
  next
    case (DeleteUser uid)
    with assms(2) have "db' = delete_users (\<lambda>u. u_id u = uid) db" by simp
    with keys_ok_delete_users [OF k] refs_ok_delete_users [OF r]
      flags_in_sync_delete_users [OF d f]
    show ?thesis by (simp add: consistent_def)
  next
    case (DeleteFile fid)
    with assms(2) have "db' = delete_files (\<lambda>f. f_id f = fid) db" by simp
    with keys_ok_delete_files [OF k] refs_ok_delete_files [OF r]
      flags_in_sync_delete_files [OF d f]
    show ?thesis by (simp add: consistent_def)
  next
    case (CloseOldSessions now h)
    with assms(2) obtain n where "close_old_sessions now h db = Inr (db', n)"
      by (auto split: sum.splits)
    from close_old_sessions_keeps [OF this] k r f show ?thesis by (simp add: consistent_def)
  qed
qed

lemma run_keeps: "consistent db \<Longrightarrow> consistent (run sts db)"
proof (induction sts arbitrary: db)
  case Nil
  then show ?case by simp
next
  case (Cons st sts)
  show ?case
  proof (cases "exec st db")
    case (Inl e)
    with Cons show ?thesis by simp
  next
    case (Inr db')
    with Cons.prems have "consistent db'" by (rule_tac exec_keeps)
    with Cons.IH Inr show ?thesis by simp
  qed
qed

lemma reachable_consistent: "consistent (run sts empty_db)"
  by (rule run_keeps [OF consistent_empty_db])

section \<open>The reclaimer\<close>

lemma close_old_sessions_total:
  assumes "MIN_TIMESTAMP \<le> now - sint h * 3600000000" "now - sint h * 3600000000 < END_TIMESTAMP"
  shows "close_old_sessions now h db =
           Inr (update_file_sessions_where
                  (\<lambda>fs. fs_ended_at fs = None \<and> fs_last_activity fs < now - sint h * 3600000000)
                  (\<lambda>fs. fs\<lparr>fs_ended_at := Some (fs_last_activity fs)\<rparr>) db)"
  using assms by (simp add: close_old_sessions_def timestamp_mi_interval_def hours_interval_def)

lemma close_old_sessions_raises:
  assumes "\<not> (MIN_TIMESTAMP \<le> now - sint h * 3600000000 \<and> now - sint h * 3600000000 < END_TIMESTAMP)"
  shows "close_old_sessions now h db = Inl DatetimeFieldOverflow"
  using assms by (simp add: close_old_sessions_def timestamp_mi_interval_def hours_interval_def)

lemma update_file_sessions_where_tables:
  "users (fst (update_file_sessions_where P g db)) = users db"
  "files (fst (update_file_sessions_where P g db)) = files db"
  "file_events (fst (update_file_sessions_where P g db)) = file_events db"
  "comments (fst (update_file_sessions_where P g db)) = comments db"
  "length (file_sessions (fst (update_file_sessions_where P g db))) = length (file_sessions db)"
  "file_sessions (fst (update_file_sessions_where P g db)) =
     map (\<lambda>fs. if P fs then g fs else fs) (file_sessions db)"
  "snd (update_file_sessions_where P g db) = int (length (filter P (file_sessions db)))"
  by (simp_all add: update_file_sessions_where_def)

lemma closed_pairs_count:
  "length (filter (\<lambda>(fs, fs'). fs_ended_at fs = None \<and> fs_ended_at fs' \<noteq> None)
             (zip xs (map (\<lambda>fs. if fs_ended_at fs = None \<and> P fs
                                 then fs\<lparr>fs_ended_at := Some (fs_last_activity fs)\<rparr> else fs) xs)))
   = length (filter (\<lambda>fs. fs_ended_at fs = None \<and> P fs) xs)"
  by (induction xs) auto

lemma close_old_sessions_parts:
  assumes "close_old_sessions now h db = Inr (db', n)"
  shows "users db' = users db" "files db' = files db" "file_events db' = file_events db"
    "comments db' = comments db" "length (file_sessions db') = length (file_sessions db)"
    "file_sessions db' =
       map (\<lambda>fs. if fs_ended_at fs = None \<and> fs_last_activity fs < now - sint h * 3600000000
                 then fs\<lparr>fs_ended_at := Some (fs_last_activity fs)\<rparr> else fs)
           (file_sessions db)"
    "n = int (length (filter (\<lambda>fs. fs_ended_at fs = None
                                \<and> fs_last_activity fs < now - sint h * 3600000000)
                        (file_sessions db)))"
proof -
  let ?u = "update_file_sessions_where
           (\<lambda>fs. fs_ended_at fs = None \<and> fs_last_activity fs < now - sint h * 3600000000)
           (\<lambda>fs. fs\<lparr>fs_ended_at := Some (fs_last_activity fs)\<rparr>) db"
  from close_old_sessions_result(1) [OF assms]
  have db': "db' = fst ?u" and n: "n = snd ?u"
    by (metis fst_conv, metis snd_conv)
  show "users db' = users db" "files db' = files db" "file_events db' = file_events db"
    "comments db' = comments db" "length (file_sessions db') = length (file_sessions db)"
    "file_sessions db' =
       map (\<lambda>fs. if fs_ended_at fs = None \<and> fs_last_activity fs < now - sint h * 3600000000
                 then fs\<lparr>fs_ended_at := Some (fs_last_activity fs)\<rparr> else fs)
           (file_sessions db)"
    "n = int (length (filter (\<lambda>fs. fs_ended_at fs = None
                                \<and> fs_last_activity fs < now - sint h * 3600000000)
                        (file_sessions db)))"
    unfolding db' n by (simp_all add: update_file_sessions_where_tables)
qed

lemma close_old_sessions_nth:
  assumes "close_old_sessions now h db = Inr (db', n)" and "i < length (file_sessions db)"
  shows "file_sessions db' ! i =
           (if fs_ended_at (file_sessions db ! i) = None
               \<and> fs_last_activity (file_sessions db ! i) < now - sint h * 3600000000
            then (file_sessions db ! i)\<lparr>fs_ended_at := Some (fs_last_activity (file_sessions db ! i))\<rparr>
            else file_sessions db ! i)"
  unfolding close_old_sessions_parts(6) [OF assms(1)] using assms(2) by simp

lemma close_old_sessions_count:
  assumes "close_old_sessions now h db = Inr (db', n)"
  shows "n = int (length (filter (\<lambda>(fs, fs'). fs_ended_at fs = None \<and> fs_ended_at fs' \<noteq> None)
                    (zip (file_sessions db) (file_sessions db'))))"
  unfolding close_old_sessions_parts(6) [OF assms] close_old_sessions_parts(7) [OF assms]
  by (simp only: closed_pairs_count)

text \<open>At hour 100, with a limit of 24 hours, only the session idle since hour 10 is closed.\<close>

lemma db_sessions_day:
  "close_old_sessions (hour 100) 24 db_sessions = Inr (db_sessions_reclaimed, 1)"
  by (simp add: close_old_sessions_def update_file_sessions_where_def timestamp_mi_interval_def
        MIN_TIMESTAMP_def END_TIMESTAMP_def db_sessions_def db_sessions_reclaimed_def
        new_session_def hour_def hours_interval_def)

lemma db_sessions_zero:
  "close_old_sessions (hour 100) 0 db_sessions = Inr (db_sessions_reclaimed, 1)"
  by (simp add: close_old_sessions_def update_file_sessions_where_def timestamp_mi_interval_def
        MIN_TIMESTAMP_def END_TIMESTAMP_def db_sessions_def db_sessions_reclaimed_def
        new_session_def hour_def hours_interval_def)

text \<open>
  Claim C3, as stated: for every \<open>max_age_hours\<close> the call closes the stale sessions and
  returns their number. At hour 100, with two sessions open, \<open>close_old_sessions(60000000)\<close>
  returns no number: the limit, 60 million hours before the call, lies before the first
  timestamp of the engine, and the subtraction raises \<open>timestamp out of range\<close>.
\<close>

theorem reclaim_limit_out_of_range_counterexample:
  "fs_ended_at (file_sessions db_sessions ! 0) = None \<and>
   close_old_sessions (hour 100) 60000000 db_sessions = Inl DatetimeFieldOverflow"
  by (simp add: close_old_sessions_def timestamp_mi_interval_def MIN_TIMESTAMP_def
        END_TIMESTAMP_def db_sessions_def new_session_def hour_def hours_interval_def)

text \<open>
  Claim C3, amended. For every \<open>max_age_hours\<close> for which \<open>now - max_age_hours\<close> hours is a
  timestamp of the engine, \<open>close_old_sessions\<close> returns, and what it returns is the
  effect and the \<open>ROW_COUNT\<close> of the one conditional \<open>UPDATE\<close>: the table of sessions is
  changed row by row and in place, a session that is open (\<open>ended_at IS NULL\<close>) and whose
  \<open>last_activity\<close> is earlier than \<open>now - max_age_hours\<close> hours gets its own
  \<open>last_activity\<close> as \<open>ended_at\<close>, every other session stays as it is, and the value
  returned is the number of sessions that were open before the call and are closed after
  it. For any other \<open>max_age_hours\<close> the call closes nothing, and with a session open it
  raises \<open>timestamp out of range\<close>.
\<close>

theorem close_old_sessions_closes_stale:
  "(MIN_TIMESTAMP \<le> now - sint max_age_hours * 3600000000 \<and>
    now - sint max_age_hours * 3600000000 < END_TIMESTAMP \<longrightarrow>
      (\<exists>db' closed_count.
         close_old_sessions now max_age_hours db = Inr (db', closed_count) \<and>
         (db', closed_count) =
           update_file_sessions_where
             (\<lambda>fs. fs_ended_at fs = None
                    \<and> fs_last_activity fs < now - sint max_age_hours * 3600000000)
             (\<lambda>fs. fs\<lparr>fs_ended_at := Some (fs_last_activity fs)\<rparr>) db \<and>
         length (file_sessions db') = length (file_sessions db) \<and>
         (\<forall>i < length (file_sessions db).
            file_sessions db' ! i =
              (if fs_ended_at (file_sessions db ! i) = None
                  \<and> fs_last_activity (file_sessions db ! i) < now - sint max_age_hours * 3600000000
               then (file_sessions db ! i)\<lparr>fs_ended_at := Some (fs_last_activity (file_sessions db ! i))\<rparr>
               else file_sessions db ! i)) \<and>
         closed_count =
           int (length (filter (\<lambda>(fs, fs'). fs_ended_at fs = None \<and> fs_ended_at fs' \<noteq> None)
                          (zip (file_sessions db) (file_sessions db')))))) \<and>
   (\<not> (MIN_TIMESTAMP \<le> now - sint max_age_hours * 3600000000 \<and>
       now - sint max_age_hours * 3600000000 < END_TIMESTAMP) \<longrightarrow>
      run [CloseOldSessions now max_age_hours] db = db \<and>
      ((\<exists>fs \<in> set (file_sessions db). fs_ended_at fs = None) \<longrightarrow>
         close_old_sessions now max_age_hours db = Inl DatetimeFieldOverflow))"
proof (intro conjI impI)
  let ?u = "update_file_sessions_where
             (\<lambda>fs. fs_ended_at fs = None
                    \<and> fs_last_activity fs < now - sint max_age_hours * 3600000000)
             (\<lambda>fs. fs\<lparr>fs_ended_at := Some (fs_last_activity fs)\<rparr>) db"
  assume "MIN_TIMESTAMP \<le> now - sint max_age_hours * 3600000000 \<and>
    now - sint max_age_hours * 3600000000 < END_TIMESTAMP"
  then have t: "close_old_sessions now max_age_hours db = Inr ?u"
    by (simp add: close_old_sessions_total)
  then have r: "close_old_sessions now max_age_hours db = Inr (fst ?u, snd ?u)"
    by simp
  show "\<exists>db' closed_count.
         close_old_sessions now max_age_hours db = Inr (db', closed_count) \<and>
         (db', closed_count) = ?u \<and>
         length (file_sessions db') = length (file_sessions db) \<and>
         (\<forall>i < length (file_sessions db).
            file_sessions db' ! i =
              (if fs_ended_at (file_sessions db ! i) = None
                  \<and> fs_last_activity (file_sessions db ! i) < now - sint max_age_hours * 3600000000
               then (file_sessions db ! i)\<lparr>fs_ended_at := Some (fs_last_activity (file_sessions db ! i))\<rparr>
               else file_sessions db ! i)) \<and>
         closed_count =
           int (length (filter (\<lambda>(fs, fs'). fs_ended_at fs = None \<and> fs_ended_at fs' \<noteq> None)
                          (zip (file_sessions db) (file_sessions db'))))"
  proof (intro exI conjI allI impI)
    show "close_old_sessions now max_age_hours db = Inr (fst ?u, snd ?u)" by (rule r)
    show "(fst ?u, snd ?u) = ?u" by simp
    show "length (file_sessions (fst ?u)) = length (file_sessions db)"
      by (rule close_old_sessions_parts(5) [OF r])
    show "file_sessions (fst ?u) ! i =
              (if fs_ended_at (file_sessions db ! i) = None
                  \<and> fs_last_activity (file_sessions db ! i) < now - sint max_age_hours * 3600000000
               then (file_sessions db ! i)\<lparr>fs_ended_at := Some (fs_last_activity (file_sessions db ! i))\<rparr>
               else file_sessions db ! i)"
      if "i < length (file_sessions db)" for i
      by (rule close_old_sessions_nth [OF r that])
    show "snd ?u =
           int (length (filter (\<lambda>(fs, fs'). fs_ended_at fs = None \<and> fs_ended_at fs' \<noteq> None)
                          (zip (file_sessions db) (file_sessions (fst ?u)))))"
      by (rule close_old_sessions_count [OF r])
  qed
next
  assume "\<not> (MIN_TIMESTAMP \<le> now - sint max_age_hours * 3600000000 \<and>
       now - sint max_age_hours * 3600000000 < END_TIMESTAMP)"
  then have e: "close_old_sessions now max_age_hours db = Inl DatetimeFieldOverflow"
    by (rule close_old_sessions_raises)
  show "run [CloseOldSessions now max_age_hours] db = db"
    by (simp add: e)
  show "close_old_sessions now max_age_hours db = Inl DatetimeFieldOverflow"
    by (rule e)
qed

theorem close_old_sessions_closes_stale_witness:
  "MIN_TIMESTAMP \<le> hour 100 - sint (24 :: 32 word) * 3600000000 \<and>
   hour 100 - sint (24 :: 32 word) * 3600000000 < END_TIMESTAMP \<and>
   close_old_sessions (hour 100) 24 db_sessions = Inr (db_sessions_reclaimed, 1) \<and>
   (0 :: nat) < length (file_sessions db_sessions) \<and>
   file_sessions db_sessions ! 0 = new_session 1 1 1 0 (hour 10) None \<and>
   file_sessions db_sessions_reclaimed ! 0 = new_session 1 1 1 0 (hour 10) (Some (hour 10)) \<and>
   file_sessions db_sessions_reclaimed ! 1 = file_sessions db_sessions ! 1 \<and>
   \<not> (MIN_TIMESTAMP \<le> hour 100 - sint (60000000 :: 32 word) * 3600000000) \<and>
   (\<exists>fs \<in> set (file_sessions db_sessions). fs_ended_at fs = None) \<and>
   close_old_sessions (hour 100) 60000000 db_sessions = Inl DatetimeFieldOverflow"
proof -
  have range: "MIN_TIMESTAMP \<le> hour 100 - sint (24 :: 32 word) * 3600000000"
    "hour 100 - sint (24 :: 32 word) * 3600000000 < END_TIMESTAMP"
    "\<not> (MIN_TIMESTAMP \<le> hour 100 - sint (60000000 :: 32 word) * 3600000000)"
    by (simp_all add: MIN_TIMESTAMP_def END_TIMESTAMP_def hour_def)
  have is_open: "\<exists>fs \<in> set (file_sessions db_sessions). fs_ended_at fs = None"
    by (simp add: db_sessions_def new_session_def)
  from close_old_sessions_closes_stale [of "hour 100" 60000000 db_sessions] range(3) is_open
  have raised: "close_old_sessions (hour 100) 60000000 db_sessions = Inl DatetimeFieldOverflow"
    by blast
  from close_old_sessions_closes_stale [of "hour 100" 24 db_sessions] range(1,2)
  have "\<exists>db' closed_count. close_old_sessions (hour 100) 24 db_sessions = Inr (db', closed_count)"
    by blast
  with db_sessions_day
  have returned: "close_old_sessions (hour 100) 24 db_sessions = Inr (db_sessions_reclaimed, 1)"
    by simp
  show ?thesis
    using range is_open raised returned
    by (simp add: db_sessions_def db_sessions_reclaimed_def)
qed

text \<open>
  Claim C10. \<open>close_old_sessions\<close> writes nothing but \<open>ended_at\<close>: every session keeps
  its id, user, file, \<open>started_at\<close>, \<open>last_activity\<close>, \<open>hash_before\<close>, \<open>hash_after\<close>,
  \<open>is_commented\<close> and \<open>resume_count\<close>, a session that is closed already or not old
  enough is left as a whole, and the other tables are untouched; in particular no row is
  added to \<open>file_events\<close>. A call that raises leaves the whole state as it was.
\<close>

theorem close_old_sessions_frame:
  "(\<forall>db' closed_count. close_old_sessions now max_age_hours db = Inr (db', closed_count) \<longrightarrow>
      users db' = users db \<and> files db' = files db \<and>
      file_events db' = file_events db \<and> comments db' = comments db \<and>
      length (file_sessions db') = length (file_sessions db) \<and>
      (\<forall>i < length (file_sessions db).
         let fs = file_sessions db ! i; fs' = file_sessions db' ! i in
           fs_id fs' = fs_id fs \<and> fs_user_id fs' = fs_user_id fs \<and>
           fs_file_id fs' = fs_file_id fs \<and> fs_started_at fs' = fs_started_at fs \<and>
           fs_last_activity fs' = fs_last_activity fs \<and>
           fs_hash_before fs' = fs_hash_before fs \<and> fs_hash_after fs' = fs_hash_after fs \<and>
           fs_is_commented fs' = fs_is_commented fs \<and>
           fs_resume_count fs' = fs_resume_count fs \<and>
           (\<not> (fs_ended_at fs = None
               \<and> fs_last_activity fs < now - sint max_age_hours * 3600000000) \<longrightarrow> fs' = fs))) \<and>
   (\<forall>e. close_old_sessions now max_age_hours db = Inl e \<longrightarrow>
      run [CloseOldSessions now max_age_hours] db = db)"
proof (intro conjI allI impI)
  fix db' closed_count
  assume r: "close_old_sessions now max_age_hours db = Inr (db', closed_count)"
  show "users db' = users db" "files db' = files db" "file_events db' = file_events db"
    "comments db' = comments db" "length (file_sessions db') = length (file_sessions db)"
    by (rule close_old_sessions_parts [OF r])+
  fix i assume "i < length (file_sessions db)"
  from close_old_sessions_nth [OF r this]
  show "let fs = file_sessions db ! i; fs' = file_sessions db' ! i in
           fs_id fs' = fs_id fs \<and> fs_user_id fs' = fs_user_id fs \<and>
           fs_file_id fs' = fs_file_id fs \<and> fs_started_at fs' = fs_started_at fs \<and>
           fs_last_activity fs' = fs_last_activity fs \<and>
           fs_hash_before fs' = fs_hash_before fs \<and> fs_hash_after fs' = fs_hash_after fs \<and>
           fs_is_commented fs' = fs_is_commented fs \<and>
           fs_resume_count fs' = fs_resume_count fs \<and>
           (\<not> (fs_ended_at fs = None
               \<and> fs_last_activity fs < now - sint max_age_hours * 3600000000) \<longrightarrow> fs' = fs)"
    by (simp add: Let_def)
next
  fix e assume "close_old_sessions now max_age_hours db = Inl e"
  then show "run [CloseOldSessions now max_age_hours] db = db"
    by simp
qed

theorem close_old_sessions_frame_witness:
  "close_old_sessions (hour 100) 24 db_sessions = Inr (db_sessions_reclaimed, 1) \<and>
   file_events db_sessions_reclaimed = file_events db_sessions \<and>
   (0 :: nat) < length (file_sessions db_sessions) \<and>
   fs_ended_at (file_sessions db_sessions ! 0) = None \<and>
   fs_ended_at (file_sessions db_sessions_reclaimed ! 0) = Some (hour 10) \<and>
   fs_last_activity (file_sessions db_sessions_reclaimed ! 0) =
     fs_last_activity (file_sessions db_sessions ! 0) \<and>
   close_old_sessions (hour 100) 60000000 db_sessions = Inl DatetimeFieldOverflow \<and>
   run [CloseOldSessions (hour 100) 60000000] db_sessions = db_sessions"
proof -
  have raised: "close_old_sessions (hour 100) 60000000 db_sessions = Inl DatetimeFieldOverflow"
    by (simp add: close_old_sessions_raises MIN_TIMESTAMP_def hour_def)
  from close_old_sessions_frame [of "hour 100" 24 db_sessions] db_sessions_day
  have "file_events db_sessions_reclaimed = file_events db_sessions"
    and "\<forall>i < length (file_sessions db_sessions).
           fs_last_activity (file_sessions db_sessions_reclaimed ! i) =
             fs_last_activity (file_sessions db_sessions ! i)"
    by (simp_all add: Let_def)
  moreover from close_old_sessions_frame [of "hour 100" 60000000 db_sessions] raised
  have "run [CloseOldSessions (hour 100) 60000000] db_sessions = db_sessions"
    by blast
  ultimately show ?thesis
    using db_sessions_day raised
    by (simp add: db_sessions_def db_sessions_reclaimed_def new_session_def)
qed

text \<open>
  Claim C4, as stated: \<open>close_old_sessions(0)\<close> closes every open session, however recent
  its \<open>last_activity\<close>. The comparison of the \<open>UPDATE\<close> is strict,
  \<open>last_activity < CURRENT_TIMESTAMP - 0 hours\<close>. At hour 100 bob's session, whose last
  heartbeat carries that very time, is open before the call and open after it, and the
  call reports one closed session, alice's.
\<close>

theorem reclaim_zero_keeps_current_session_counterexample:
  "fs_ended_at (file_sessions db_sessions ! 1) = None \<and>
   fs_last_activity (file_sessions db_sessions ! 1) = hour 100 \<and>
   close_old_sessions (hour 100) 0 db_sessions = Inr (db_sessions_reclaimed, 1) \<and>
   fs_ended_at (file_sessions db_sessions_reclaimed ! 1) = None"
  by (simp add: close_old_sessions_def update_file_sessions_where_def timestamp_mi_interval_def
        MIN_TIMESTAMP_def END_TIMESTAMP_def db_sessions_def db_sessions_reclaimed_def
        new_session_def hour_def hours_interval_def)

text \<open>
  Claim C4, amended. At every time that is a timestamp of the engine
  \<open>close_old_sessions(0)\<close> returns; it closes every open session whose \<open>last_activity\<close> is
  earlier than the time of the call, and gives it its own \<open>last_activity\<close> as \<open>ended_at\<close>;
  an open session whose \<open>last_activity\<close> is not earlier than the time of the call stays
  open.
\<close>

theorem close_old_sessions_zero:
  "(MIN_TIMESTAMP \<le> now \<and> now < END_TIMESTAMP \<longrightarrow>
      (\<exists>db' closed_count. close_old_sessions now 0 db = Inr (db', closed_count))) \<and>
   (\<forall>db' closed_count. close_old_sessions now 0 db = Inr (db', closed_count) \<longrightarrow>
      length (file_sessions db') = length (file_sessions db) \<and>
      (\<forall>i < length (file_sessions db).
         (fs_ended_at (file_sessions db ! i) = None \<and> fs_last_activity (file_sessions db ! i) < now
            \<longrightarrow> fs_ended_at (file_sessions db' ! i) = Some (fs_last_activity (file_sessions db ! i))) \<and>
         (fs_ended_at (file_sessions db ! i) = None \<and> now \<le> fs_last_activity (file_sessions db ! i)
            \<longrightarrow> fs_ended_at (file_sessions db' ! i) = None)))"
proof (intro conjI allI impI)
  assume "MIN_TIMESTAMP \<le> now \<and> now < END_TIMESTAMP"
  then show "\<exists>db' closed_count. close_old_sessions now 0 db = Inr (db', closed_count)"
    by (simp add: close_old_sessions_def timestamp_mi_interval_def hours_interval_def
          update_file_sessions_where_def)
next
  fix db' closed_count
  assume r: "close_old_sessions now 0 db = Inr (db', closed_count)"
  show "length (file_sessions db') = length (file_sessions db)"
    by (rule close_old_sessions_parts(5) [OF r])
  fix i assume i: "i < length (file_sessions db)"
  note nth = close_old_sessions_nth [OF r i]
  show "fs_ended_at (file_sessions db' ! i) = Some (fs_last_activity (file_sessions db ! i))"
    if "fs_ended_at (file_sessions db ! i) = None \<and> fs_last_activity (file_sessions db ! i) < now"
    using that by (simp add: nth)
  show "fs_ended_at (file_sessions db' ! i) = None"
    if "fs_ended_at (file_sessions db ! i) = None \<and> now \<le> fs_last_activity (file_sessions db ! i)"
    using that by (simp add: nth)
qed

theorem close_old_sessions_zero_witness:
  "MIN_TIMESTAMP \<le> hour 100 \<and> hour 100 < END_TIMESTAMP \<and>
   close_old_sessions (hour 100) 0 db_sessions = Inr (db_sessions_reclaimed, 1) \<and>
   (0 :: nat) < length (file_sessions db_sessions) \<and>
   fs_ended_at (file_sessions db_sessions ! 0) = None \<and>
   fs_last_activity (file_sessions db_sessions ! 0) < hour 100 \<and>
   fs_ended_at (file_sessions db_sessions_reclaimed ! 0) = Some (hour 10) \<and>
   (1 :: nat) < length (file_sessions db_sessions) \<and>
   fs_ended_at (file_sessions db_sessions ! 1) = None \<and>
   hour 100 \<le> fs_last_activity (file_sessions db_sessions ! 1) \<and>
   fs_ended_at (file_sessions db_sessions_reclaimed ! 1) = None"
proof -
  have range: "MIN_TIMESTAMP \<le> hour 100 \<and> hour 100 < END_TIMESTAMP"
    by (simp add: MIN_TIMESTAMP_def END_TIMESTAMP_def hour_def)
  with close_old_sessions_zero [of "hour 100" db_sessions]
  have "\<exists>db' closed_count. close_old_sessions (hour 100) 0 db_sessions = Inr (db', closed_count)"
    by blast
  with db_sessions_zero
  have returned: "close_old_sessions (hour 100) 0 db_sessions = Inr (db_sessions_reclaimed, 1)"
    by simp
  have rows: "(0 :: nat) < length (file_sessions db_sessions)"
    "fs_ended_at (file_sessions db_sessions ! 0) = None"
    "fs_last_activity (file_sessions db_sessions ! 0) < hour 100"
    "(1 :: nat) < length (file_sessions db_sessions)"
    "fs_ended_at (file_sessions db_sessions ! 1) = None"
    "hour 100 \<le> fs_last_activity (file_sessions db_sessions ! 1)"
    "fs_last_activity (file_sessions db_sessions ! 0) = hour 10"
    by (simp_all add: db_sessions_def new_session_def hour_def)
  from close_old_sessions_zero [of "hour 100" db_sessions] returned
  have all: "\<forall>i < length (file_sessions db_sessions).
         (fs_ended_at (file_sessions db_sessions ! i) = None
            \<and> fs_last_activity (file_sessions db_sessions ! i) < hour 100
            \<longrightarrow> fs_ended_at (file_sessions db_sessions_reclaimed ! i)
                  = Some (fs_last_activity (file_sessions db_sessions ! i))) \<and>
         (fs_ended_at (file_sessions db_sessions ! i) = None
            \<and> hour 100 \<le> fs_last_activity (file_sessions db_sessions ! i)
            \<longrightarrow> fs_ended_at (file_sessions db_sessions_reclaimed ! i) = None)"
    by blast
  from all rows(1,2,3,7) have closed: "fs_ended_at (file_sessions db_sessions_reclaimed ! 0) = Some (hour 10)"
    by metis
  from all rows(4,5,6) have kept: "fs_ended_at (file_sessions db_sessions_reclaimed ! 1) = None"
    by blast
  show ?thesis
    using range returned rows closed kept by blast
qed

section \<open>The comment flag\<close>

lemma run_closed_session_story: "run closed_session_story empty_db = db_closed"
  by (simp add: closed_session_story_def empty_db_def db_closed_def insert_users_def
      insert_files_def insert_file_sessions_def coerce_users_def coerce_files_def
      coerce_file_sessions_def varchar_def varchar_null_def alice_def a_py_def new_session_def)

lemma insert_fixed_bug_closed:
  "insert_comments db_closed fixed_bug =
     Inr (db_closed\<lparr>file_sessions := [(new_session 1 1 1 0 (hour 1) (Some (hour 2)))\<lparr>fs_is_commented := Some True\<rparr>],
                    comments := [fixed_bug]\<rparr>)"
  by (simp add: insert_comments_def coerce_comments_def varchar_def db_closed_def fixed_bug_def
      new_session_def alice_def)

text \<open>
  Claim C2. The reachable states are those the statements of \<open>statement\<close> lead to from
  the empty database; a session is inserted without naming \<open>is_commented\<close>, and nothing
  but the trigger writes the column afterwards. In every such state the flag of a session
  is \<open>TRUE\<close> exactly when a row of \<open>comments\<close> names the session. An accepted insert
  into \<open>comments\<close> leaves the flag of its session \<open>TRUE\<close>, the delete of a stored comment
  leaves it \<open>FALSE\<close>: the trigger \<open>trg_comment_changes\<close> sets it, not the caller.
\<close>

theorem is_commented_iff_comment_exists:
  "(\<forall>fs \<in> set (file_sessions (run sts empty_db)).
      (fs_is_commented fs = Some True) = (\<exists>c \<in> set (comments (run sts empty_db)). c_session_id c = fs_id fs)) \<and>
   (\<forall>c db'. insert_comments (run sts empty_db) c = Inr db' \<longrightarrow>
      (\<forall>fs \<in> set (file_sessions db'). fs_id fs = c_session_id c \<longrightarrow> fs_is_commented fs = Some True)) \<and>
   (\<forall>c \<in> set (comments (run sts empty_db)).
      \<forall>fs \<in> set (file_sessions (delete_comments (\<lambda>x. c_id x = c_id c) (run sts empty_db))).
        fs_id fs = c_session_id c \<longrightarrow> fs_is_commented fs = Some False)"
proof (intro conjI)
  let ?db = "run sts empty_db"
  have sync: "flags_in_sync ?db"
    using reachable_consistent [of sts] by (simp add: consistent_def)
  show "\<forall>fs \<in> set (file_sessions ?db).
      (fs_is_commented fs = Some True) = (\<exists>c \<in> set (comments ?db). c_session_id c = fs_id fs)"
  proof
    fix fs assume "fs \<in> set (file_sessions ?db)"
    with sync have "fs_is_commented fs = Some (fs_id fs \<in> set (map c_session_id (comments ?db)))"
      by (simp add: flags_in_sync_def)
    moreover have "(fs_id fs \<in> set (map c_session_id (comments ?db))) =
        (\<exists>c \<in> set (comments ?db). c_session_id c = fs_id fs)"
      by (simp add: image_iff) metis
    ultimately show "(fs_is_commented fs = Some True) =
        (\<exists>c \<in> set (comments ?db). c_session_id c = fs_id fs)"
      by simp
  qed
  show "\<forall>c db'. insert_comments ?db c = Inr db' \<longrightarrow>
      (\<forall>fs \<in> set (file_sessions db'). fs_id fs = c_session_id c \<longrightarrow> fs_is_commented fs = Some True)"
  proof (intro allI impI)
    fix c db' assume "insert_comments ?db c = Inr db'"
    from insert_comments_result(1) [OF this]
    show "\<forall>fs \<in> set (file_sessions db'). fs_id fs = c_session_id c \<longrightarrow> fs_is_commented fs = Some True"
      by auto
  qed
  show "\<forall>c \<in> set (comments ?db).
      \<forall>fs \<in> set (file_sessions (delete_comments (\<lambda>x. c_id x = c_id c) ?db)).
        fs_id fs = c_session_id c \<longrightarrow> fs_is_commented fs = Some False"
    by (auto simp: delete_comments_eq)
qed

theorem is_commented_iff_comment_exists_witness:
  "file_sessions (run closed_session_story empty_db) = [new_session 1 1 1 0 (hour 1) (Some (hour 2))] \<and>
   comments (run closed_session_story empty_db) = [] \<and>
   fs_is_commented (new_session 1 1 1 0 (hour 1) (Some (hour 2))) = Some False \<and>
   insert_comments (run closed_session_story empty_db) fixed_bug =
     Inr (db_closed\<lparr>file_sessions := [(new_session 1 1 1 0 (hour 1) (Some (hour 2)))\<lparr>fs_is_commented := Some True\<rparr>],
                    comments := [fixed_bug]\<rparr>)"
  using is_commented_iff_comment_exists [of closed_session_story]
    run_closed_session_story insert_fixed_bug_closed
  by (simp add: db_closed_def new_session_def)

section \<open>One comment for each session\<close>

lemma insert_comments_succeeds:
  assumes "c_id c \<notin> set (map c_id (comments db))"
    "c_session_id c \<notin> set (map c_session_id (comments db))"
    "c_session_id c \<in> set (map fs_id (file_sessions db))"
    "c_user_id c \<in> set (map u_id (users db))"
    "length (c_change_type c) \<le> 50"
  shows "insert_comments db c =
           Inr (update_session_commented_flag TG_INSERT c (db\<lparr>comments := comments db @ [c]\<rparr>))"
  using assms by (simp add: insert_comments_def coerce_comments_fits)

lemma insert_comments_duplicate:
  assumes "c_session_id c \<in> set (map c_session_id (comments db))"
  shows "\<exists>e. insert_comments db c = Inl e"
    and "length (c_change_type c) \<le> 50 \<Longrightarrow>
           insert_comments db c =
             Inl (UniqueViolation (if c_id c \<in> set (map c_id (comments db))
                                   then ''comments_pkey'' else ''comments_session_id_key''))"
proof -
  show "\<exists>e. insert_comments db c = Inl e"
  proof (cases "coerce_comments c")
    case (Inl e)
    then show ?thesis by (simp add: insert_comments_def)
  next
    case (Inr c')
    with assms coerce_comments_keeps [OF Inr] show ?thesis
      by (simp add: insert_comments_def)
  qed
  show "insert_comments db c =
             Inl (UniqueViolation (if c_id c \<in> set (map c_id (comments db))
                                   then ''comments_pkey'' else ''comments_session_id_key''))"
    if "length (c_change_type c) \<le> 50"
    using assms that by (simp add: insert_comments_def coerce_comments_fits)
qed

text \<open>
  Claim C5. \<open>comments.session_id\<close> is \<open>UNIQUE\<close>. In every reachable state no two
  comments name the same session. A comment with a new id, for a stored session that has
  no comment yet, by a stored user and with a change type of at most 50 characters, is
  accepted and stored. A comment for a session that has one already is always refused and
  the stored state stays as it was; when its change type has at most 50 characters the
  error is a uniqueness violation, that of \<open>comments_session_id_key\<close> when its id is new.
\<close>

theorem at_most_one_comment_per_session:
  "distinct (map c_session_id (comments (run sts empty_db))) \<and>
   (c_id c \<notin> set (map c_id (comments db)) \<and>
    c_session_id c \<notin> set (map c_session_id (comments db)) \<and>
    c_session_id c \<in> set (map fs_id (file_sessions db)) \<and>
    c_user_id c \<in> set (map u_id (users db)) \<and>
    length (c_change_type c) \<le> 50
      \<longrightarrow> (\<exists>db'. insert_comments db c = Inr db' \<and> comments db' = comments db @ [c])) \<and>
   (c_session_id c' \<in> set (map c_session_id (comments db))
      \<longrightarrow> (\<exists>e. insert_comments db c' = Inl e) \<and>
          (length (c_change_type c') \<le> 50
             \<longrightarrow> (\<exists>name. insert_comments db c' = Inl (UniqueViolation name)) \<and>
                 (c_id c' \<notin> set (map c_id (comments db))
                    \<longrightarrow> insert_comments db c' = Inl (UniqueViolation ''comments_session_id_key''))) \<and>
          run [InsertComment c'] db = db)"
proof (intro conjI impI)
  show "distinct (map c_session_id (comments (run sts empty_db)))"
    using reachable_consistent [of sts] by (simp add: consistent_def keys_ok_def)
next
  assume a: "c_id c \<notin> set (map c_id (comments db)) \<and>
    c_session_id c \<notin> set (map c_session_id (comments db)) \<and>
    c_session_id c \<in> set (map fs_id (file_sessions db)) \<and>
    c_user_id c \<in> set (map u_id (users db)) \<and>
    length (c_change_type c) \<le> 50"
  then have "insert_comments db c =
           Inr (update_session_commented_flag TG_INSERT c (db\<lparr>comments := comments db @ [c]\<rparr>))"
    by (simp add: insert_comments_succeeds)
  then show "\<exists>db'. insert_comments db c = Inr db' \<and> comments db' = comments db @ [c]"
    by simp
next
  assume a: "c_session_id c' \<in> set (map c_session_id (comments db))"
  from insert_comments_duplicate(1) [OF a]
  show "\<exists>e. insert_comments db c' = Inl e" .
  from insert_comments_duplicate(1) [OF a]
  show "run [InsertComment c'] db = db" by auto
  assume l: "length (c_change_type c') \<le> 50"
  from insert_comments_duplicate(2) [OF a l]
  show "\<exists>name. insert_comments db c' = Inl (UniqueViolation name)" by blast
  from insert_comments_duplicate(2) [OF a l]
  show "insert_comments db c' = Inl (UniqueViolation ''comments_session_id_key'')"
    if "c_id c' \<notin> set (map c_id (comments db))" using that by simp
qed

theorem at_most_one_comment_per_session_witness:
  "c_id fixed_bug \<notin> set (map c_id (comments db_closed)) \<and>
   c_session_id fixed_bug \<notin> set (map c_session_id (comments db_closed)) \<and>
   c_session_id fixed_bug \<in> set (map fs_id (file_sessions db_closed)) \<and>
   c_user_id fixed_bug \<in> set (map u_id (users db_closed)) \<and>
   length (c_change_type fixed_bug) \<le> 50 \<and>
   insert_comments db_closed fixed_bug =
     Inr (db_closed\<lparr>file_sessions := [(new_session 1 1 1 0 (hour 1) (Some (hour 2)))\<lparr>fs_is_commented := Some True\<rparr>],
                    comments := [fixed_bug]\<rparr>) \<and>
   insert_comments
     (db_closed\<lparr>file_sessions := [(new_session 1 1 1 0 (hour 1) (Some (hour 2)))\<lparr>fs_is_commented := Some True\<rparr>],
                comments := [fixed_bug]\<rparr>)
     (fixed_bug\<lparr>c_id := 2, c_content := ''again''\<rparr>) =
     Inl (UniqueViolation ''comments_session_id_key'')"
proof -
  let ?db1 = "db_closed\<lparr>file_sessions := [(new_session 1 1 1 0 (hour 1) (Some (hour 2)))\<lparr>fs_is_commented := Some True\<rparr>],
                comments := [fixed_bug]\<rparr>"
  let ?c' = "fixed_bug\<lparr>c_id := 2, c_content := ''again''\<rparr>"
  have 0: "c_id fixed_bug \<notin> set (map c_id (comments db_closed)) \<and>
    c_session_id fixed_bug \<notin> set (map c_session_id (comments db_closed)) \<and>
    c_session_id fixed_bug \<in> set (map fs_id (file_sessions db_closed)) \<and>
    c_user_id fixed_bug \<in> set (map u_id (users db_closed)) \<and>
    length (c_change_type fixed_bug) \<le> 50"
    by (simp add: db_closed_def fixed_bug_def new_session_def alice_def)
  with at_most_one_comment_per_session [where db = db_closed and c = fixed_bug]
  have "\<exists>db'. insert_comments db_closed fixed_bug = Inr db'" by blast
  with insert_fixed_bug_closed have first: "insert_comments db_closed fixed_bug = Inr ?db1"
    by simp
  have 1: "c_session_id ?c' \<in> set (map c_session_id (comments ?db1))" by simp
  have 2: "c_id ?c' \<notin> set (map c_id (comments ?db1))" by (simp add: fixed_bug_def)
  have 3: "length (c_change_type ?c') \<le> 50" by (simp add: fixed_bug_def)
  from at_most_one_comment_per_session [where db = ?db1 and c' = ?c'] 1 2 3
  have "insert_comments ?db1 ?c' = Inl (UniqueViolation ''comments_session_id_key'')" by blast
  with 0 first show ?thesis by simp
qed

section \<open>Open sessions of a user on a file\<close>
















section \<open>Which sessions can be commented, and with what\<close>

lemma addComment_fails:
  assumes "e \<in> set (add_comment_errors types db sessionId content changeType)"
  shows "addComment types db commentId now sessionId authorUser content changeType =
           Inl (add_comment_errors types db sessionId content changeType)"
  using assms
  by (cases "add_comment_errors types db sessionId content changeType")
     (simp_all add: addComment_def)

lemma addComment_returns:
  assumes "addComment types db commentId now sessionId authorUser content changeType = Inr db'"
  shows "add_comment_errors types db sessionId content changeType = []"
    and "insert_comments db
           \<lparr>c_id = commentId, c_session_id = sessionId, c_user_id = authorUser,
            c_content = content, c_change_type = changeType, c_created_at = Some now\<rparr> = Inr db'"
  using assms
  by (auto simp: addComment_def split: list.splits sum.splits)

lemma add_comment_errors_empty:
  assumes "add_comment_errors types db sessionId content changeType = []"
  shows "sessionId \<in> set (map fs_id (file_sessions db))"
    and "\<forall>fs \<in> set (file_sessions db). fs_id fs = sessionId \<longrightarrow> fs_ended_at fs \<noteq> None"
    and "sessionId \<notin> set (map c_session_id (comments db))"
    and "changeType \<in> set types"
    and "\<not> blank content"
  using assms by (auto simp: add_comment_errors_def split: if_splits)

lemma addComment_closed:
  "addComment change_types db_closed 1 (hour 3) 1 1 ''fixed bug'' ''bugfix'' =
     Inr (db_closed\<lparr>file_sessions := [(new_session 1 1 1 0 (hour 1) (Some (hour 2)))\<lparr>fs_is_commented := Some True\<rparr>],
                    comments := [fixed_bug]\<rparr>)"
  by (simp add: addComment_def add_comment_errors_def blank_def change_types_def
        insert_comments_def coerce_comments_def varchar_def db_closed_def fixed_bug_def
        new_session_def alice_def)

text \<open>
  Claim C6. \<open>addComment\<close> fails, with \<open>SessionNotFound\<close> among its errors, when no
  session has the given id, and with \<open>SessionStillOpen\<close> among its errors when the session
  with the given id has no \<open>ended_at\<close>. When it returns, the session with the given id is
  stored and has ended, and the comment it stored is the comment of that session: no call
  attaches a comment to an open session. A call that fails stores nothing.
\<close>

theorem addComment_needs_ended_session:
  "(sessionId \<notin> set (map fs_id (file_sessions db)) \<longrightarrow>
      (\<exists>errors. addComment types db commentId now sessionId authorUser content changeType = Inl errors
                \<and> SessionNotFound \<in> set errors) \<and>
      after_addComment types db commentId now sessionId authorUser content changeType = db) \<and>
   ((\<exists>fs \<in> set (file_sessions db). fs_id fs = sessionId \<and> fs_ended_at fs = None) \<longrightarrow>
      (\<exists>errors. addComment types db commentId now sessionId authorUser content changeType = Inl errors
                \<and> SessionStillOpen \<in> set errors) \<and>
      after_addComment types db commentId now sessionId authorUser content changeType = db) \<and>
   (\<forall>db'. addComment types db commentId now sessionId authorUser content changeType = Inr db' \<longrightarrow>
      (\<exists>fs \<in> set (file_sessions db). fs_id fs = sessionId) \<and>
      (\<forall>fs \<in> set (file_sessions db). fs_id fs = sessionId \<longrightarrow> fs_ended_at fs \<noteq> None) \<and>
      (\<exists>c. comments db' = comments db @ [c] \<and> c_session_id c = sessionId \<and> c_content c = content))"
proof (intro conjI impI allI)
  let ?errors = "add_comment_errors types db sessionId content changeType"
  assume a: "sessionId \<notin> set (map fs_id (file_sessions db))"
  then have "SessionNotFound \<in> set ?errors"
    by (simp add: add_comment_errors_def)
  from addComment_fails [OF this] this
  show "\<exists>errors. addComment types db commentId now sessionId authorUser content changeType = Inl errors
                \<and> SessionNotFound \<in> set errors"
    and "after_addComment types db commentId now sessionId authorUser content changeType = db"
    by (blast, simp add: after_addComment_def)
next
  let ?errors = "add_comment_errors types db sessionId content changeType"
  assume a: "\<exists>fs \<in> set (file_sessions db). fs_id fs = sessionId \<and> fs_ended_at fs = None"
  then have "SessionStillOpen \<in> set ?errors"
    by (simp add: add_comment_errors_def)
  from addComment_fails [OF this] this
  show "\<exists>errors. addComment types db commentId now sessionId authorUser content changeType = Inl errors
                \<and> SessionStillOpen \<in> set errors"
    and "after_addComment types db commentId now sessionId authorUser content changeType = db"
    by (blast, simp add: after_addComment_def)
next
  fix db'
  assume r: "addComment types db commentId now sessionId authorUser content changeType = Inr db'"
  note e = add_comment_errors_empty [OF addComment_returns(1) [OF r]]
  from e(1) show "\<exists>fs \<in> set (file_sessions db). fs_id fs = sessionId"
    by auto
  from e(2) show "\<forall>fs \<in> set (file_sessions db). fs_id fs = sessionId \<longrightarrow> fs_ended_at fs \<noteq> None" .
  from insert_comments_result(1) [OF addComment_returns(2) [OF r]]
  obtain c where c: "coerce_comments
           \<lparr>c_id = commentId, c_session_id = sessionId, c_user_id = authorUser,
            c_content = content, c_change_type = changeType, c_created_at = Some now\<rparr> = Inr c"
    and db': "comments db' = comments db @ [c]"
    by auto
  from coerce_comments_keeps [OF c] db'
  show "\<exists>c. comments db' = comments db @ [c] \<and> c_session_id c = sessionId \<and> c_content c = content"
    by simp
qed

theorem addComment_needs_ended_session_witness:
  "7 \<notin> set (map fs_id (file_sessions db_closed)) \<and>
   addComment change_types db_closed 1 (hour 3) 7 1 ''fixed bug'' ''bugfix'' = Inl [SessionNotFound] \<and>
   after_addComment change_types db_closed 1 (hour 3) 7 1 ''fixed bug'' ''bugfix'' = db_closed \<and>
   (\<exists>fs \<in> set (file_sessions db_open). fs_id fs = 1 \<and> fs_ended_at fs = None) \<and>
   addComment change_types db_open 1 (hour 3) 1 1 ''fixed bug'' ''bugfix'' = Inl [SessionStillOpen] \<and>
   after_addComment change_types db_open 1 (hour 3) 1 1 ''fixed bug'' ''bugfix'' = db_open \<and>
   addComment change_types db_closed 1 (hour 3) 1 1 ''fixed bug'' ''bugfix'' =
     Inr (db_closed\<lparr>file_sessions := [(new_session 1 1 1 0 (hour 1) (Some (hour 2)))\<lparr>fs_is_commented := Some True\<rparr>],
                    comments := [fixed_bug]\<rparr>) \<and>
   map fs_ended_at (filter (\<lambda>fs. fs_id fs = 1) (file_sessions db_closed)) = [Some (hour 2)] \<and>
   (\<exists>c. [fixed_bug] = comments db_closed @ [c] \<and> c_session_id c = 1 \<and> c_content c = ''fixed bug'')"
proof -
  have 1: "7 \<notin> set (map fs_id (file_sessions db_closed))"
    by (simp add: db_closed_def new_session_def)
  have 2: "\<exists>fs \<in> set (file_sessions db_open). fs_id fs = 1 \<and> fs_ended_at fs = None"
    by (simp add: db_open_def new_session_def)
  have 3: "add_comment_errors change_types db_closed 7 ''fixed bug'' ''bugfix'' = [SessionNotFound]"
    by (simp add: add_comment_errors_def blank_def change_types_def db_closed_def new_session_def)
  have 4: "add_comment_errors change_types db_open 1 ''fixed bug'' ''bugfix'' = [SessionStillOpen]"
    by (simp add: add_comment_errors_def blank_def change_types_def db_open_def new_session_def)
  have 5: "addComment change_types db_closed 1 (hour 3) 7 1 ''fixed bug'' ''bugfix'' = Inl [SessionNotFound]"
    unfolding addComment_def 3 by simp
  have 6: "addComment change_types db_open 1 (hour 3) 1 1 ''fixed bug'' ''bugfix'' = Inl [SessionStillOpen]"
    unfolding addComment_def 4 by simp
  note t = addComment_needs_ended_session
  from t [of 7 db_closed change_types 1 "hour 3" 1 "''fixed bug''" "''bugfix''"] 1
  have 7: "after_addComment change_types db_closed 1 (hour 3) 7 1 ''fixed bug'' ''bugfix'' = db_closed"
    by blast
  from t [of 1 db_open change_types 1 "hour 3" 1 "''fixed bug''" "''bugfix''"] 2
  have 8: "after_addComment change_types db_open 1 (hour 3) 1 1 ''fixed bug'' ''bugfix'' = db_open"
    by blast
  from t [of 1 db_closed change_types 1 "hour 3" 1 "''fixed bug''" "''bugfix''"] addComment_closed
  have "\<exists>c. comments (db_closed\<lparr>file_sessions := [(new_session 1 1 1 0 (hour 1) (Some (hour 2)))\<lparr>fs_is_commented := Some True\<rparr>],
                    comments := [fixed_bug]\<rparr>) = comments db_closed @ [c] \<and>
           c_session_id c = 1 \<and> c_content c = ''fixed bug''"
    by blast
  then have 9: "\<exists>c. [fixed_bug] = comments db_closed @ [c] \<and> c_session_id c = 1 \<and> c_content c = ''fixed bug''"
    by simp
  have 10: "map fs_ended_at (filter (\<lambda>fs. fs_id fs = 1) (file_sessions db_closed)) = [Some (hour 2)]"
    by (simp add: db_closed_def new_session_def)
  from 1 2 5 6 7 8 9 10 addComment_closed show ?thesis
    by blast
qed

text \<open>
  Claim C9. \<open>addComment\<close> fails, with \<open>InvalidChangeType\<close> among its errors, whenever the
  change type is not one of the enumerated set, and with \<open>EmptyContent\<close> among its errors
  whenever the content is blank. In both cases the stored state is the one before the
  call: no comment is stored. A call that returns has stored a comment whose change type
  is one of the set and whose content is not blank.
\<close>

theorem addComment_validates_inputs:
  "(changeType \<notin> set types \<longrightarrow>
      (\<exists>errors. addComment types db commentId now sessionId authorUser content changeType = Inl errors
                \<and> InvalidChangeType \<in> set errors) \<and>
      after_addComment types db commentId now sessionId authorUser content changeType = db) \<and>
   (blank content \<longrightarrow>
      (\<exists>errors. addComment types db commentId now sessionId authorUser content changeType = Inl errors
                \<and> EmptyContent \<in> set errors) \<and>
      after_addComment types db commentId now sessionId authorUser content changeType = db) \<and>
   (\<forall>db'. addComment types db commentId now sessionId authorUser content changeType = Inr db' \<longrightarrow>
      changeType \<in> set types \<and> \<not> blank content)"
proof (intro conjI impI allI)
  let ?errors = "add_comment_errors types db sessionId content changeType"
  assume "changeType \<notin> set types"
  then have "InvalidChangeType \<in> set ?errors"
    by (simp add: add_comment_errors_def)
  from addComment_fails [OF this] this
  show "\<exists>errors. addComment types db commentId now sessionId authorUser content changeType = Inl errors
                \<and> InvalidChangeType \<in> set errors"
    and "after_addComment types db commentId now sessionId authorUser content changeType = db"
    by (blast, simp add: after_addComment_def)
next
  let ?errors = "add_comment_errors types db sessionId content changeType"
  assume "blank content"
  then have "EmptyContent \<in> set ?errors"
    by (simp add: add_comment_errors_def)
  from addComment_fails [OF this] this
  show "\<exists>errors. addComment types db commentId now sessionId authorUser content changeType = Inl errors
                \<and> EmptyContent \<in> set errors"
    and "after_addComment types db commentId now sessionId authorUser content changeType = db"
    by (blast, simp add: after_addComment_def)
next
  fix db'
  assume r: "addComment types db commentId now sessionId authorUser content changeType = Inr db'"
  note e = add_comment_errors_empty [OF addComment_returns(1) [OF r]]
  from e(4) show "changeType \<in> set types" .
  from e(5) show "\<not> blank content" .
qed

theorem addComment_validates_inputs_witness:
  "''typo'' \<notin> set change_types \<and>
   addComment change_types db_closed 1 (hour 3) 1 1 ''fixed bug'' ''typo'' = Inl [InvalidChangeType] \<and>
   after_addComment change_types db_closed 1 (hour 3) 1 1 ''fixed bug'' ''typo'' = db_closed \<and>
   blank ''  '' \<and>
   addComment change_types db_closed 1 (hour 3) 1 1 ''  '' ''bugfix'' = Inl [EmptyContent] \<and>
   after_addComment change_types db_closed 1 (hour 3) 1 1 ''  '' ''bugfix'' = db_closed \<and>
   ''bugfix'' \<in> set change_types \<and> \<not> blank ''fixed bug''"
proof -
  have 1: "''typo'' \<notin> set change_types" "''bugfix'' \<in> set change_types"
    by (simp_all add: change_types_def)
  have 2: "blank ''  ''" "\<not> blank ''fixed bug''"
    by (simp_all add: blank_def)
  have 3: "add_comment_errors change_types db_closed 1 ''fixed bug'' ''typo'' = [InvalidChangeType]"
    by (simp add: add_comment_errors_def blank_def change_types_def db_closed_def new_session_def)
  have 4: "add_comment_errors change_types db_closed 1 ''  '' ''bugfix'' = [EmptyContent]"
    by (simp add: add_comment_errors_def blank_def change_types_def db_closed_def new_session_def)
  have 6: "addComment change_types db_closed 1 (hour 3) 1 1 ''fixed bug'' ''typo'' = Inl [InvalidChangeType]"
    unfolding addComment_def 3 by simp
  have 8: "addComment change_types db_closed 1 (hour 3) 1 1 ''  '' ''bugfix'' = Inl [EmptyContent]"
    unfolding addComment_def 4 by simp
  note t = addComment_validates_inputs
  from t [of "''typo''" change_types db_closed 1 "hour 3" 1 1 "''fixed bug''"] 1
  have 5: "after_addComment change_types db_closed 1 (hour 3) 1 1 ''fixed bug'' ''typo'' = db_closed"
    by blast
  from t [of "''bugfix''" change_types db_closed 1 "hour 3" 1 1 "''  ''"] 2
  have 7: "after_addComment change_types db_closed 1 (hour 3) 1 1 ''  '' ''bugfix'' = db_closed"
    by blast
  from 1 2 5 6 7 8 show ?thesis
    by blast
qed

section \<open>The current editors\<close>

lemma unique_join:
  assumes "distinct (map key xs)"
  shows "concat (map (\<lambda>x. if v = key x then G x else []) xs) =
           (case find (\<lambda>x. key x = v) xs of None \<Rightarrow> [] | Some x \<Rightarrow> G x)"
  using assms
proof (induction xs)
  case Nil
  then show ?case by simp
next
  case (Cons x xs)
  show ?case
  proof (cases "key x = v")
    case True
    with Cons.prems have "\<forall>y \<in> set xs. v \<noteq> key y" by auto
    then have "concat (map (\<lambda>x. if v = key x then G x else []) xs) = []"
      by (induction xs) auto
    with True show ?thesis by simp
  next
    case False
    with Cons show ?thesis by auto
  qed
qed

lemma sessions_users_files_rows:
  assumes "keys_ok db"
  shows "sessions_users_files db =
           concat (map (\<lambda>fs. case user_of db (fs_user_id fs) of
                                None \<Rightarrow> []
                              | Some u \<Rightarrow> (case file_of db (fs_file_id fs) of
                                            None \<Rightarrow> []
                                          | Some f \<Rightarrow> [(fs, u, f)]))
                       (file_sessions db))"
proof -
  from assms have du: "distinct (map u_id (users db))" and df: "distinct (map f_id (files db))"
    by (simp_all add: keys_ok_def)
  have f: "concat (map (\<lambda>f. if fs_file_id fs = f_id f then [(fs, u, f)] else []) (files db)) =
           (case file_of db (fs_file_id fs) of None \<Rightarrow> [] | Some f \<Rightarrow> [(fs, u, f)])" for fs u
    unfolding file_of_def by (rule unique_join [OF df])
  have u: "concat (map (\<lambda>u. if fs_user_id fs = u_id u
                            then concat (map (\<lambda>f. if fs_file_id fs = f_id f then [(fs, u, f)] else []) (files db))
                            else []) (users db)) =
           (case user_of db (fs_user_id fs) of
              None \<Rightarrow> []
            | Some u \<Rightarrow> (case file_of db (fs_file_id fs) of None \<Rightarrow> [] | Some f \<Rightarrow> [(fs, u, f)]))" for fs
    unfolding user_of_def f [unfolded file_of_def] file_of_def
    by (rule unique_join [OF du])
  show ?thesis
    unfolding sessions_users_files_def by (simp only: u)
qed

lemma stored_user_and_file:
  assumes "refs_ok db" and "fs \<in> set (file_sessions db)"
  shows "\<exists>u. user_of db (fs_user_id fs) = Some u \<and> u \<in> set (users db)"
    and "\<exists>f. file_of db (fs_file_id fs) = Some f \<and> f \<in> set (files db)"
proof -
  from assms have "fs_user_id fs \<in> set (map u_id (users db))"
    and "fs_file_id fs \<in> set (map f_id (files db))"
    by (auto simp: refs_ok_def)
  then have "user_of db (fs_user_id fs) \<noteq> None" and "file_of db (fs_file_id fs) \<noteq> None"
    by (auto simp: user_of_def file_of_def find_None_iff)
  then show "\<exists>u. user_of db (fs_user_id fs) = Some u \<and> u \<in> set (users db)"
    and "\<exists>f. file_of db (fs_file_id fs) = Some f \<and> f \<in> set (files db)"
    by (auto simp: user_of_def file_of_def dest: find_Some_iff [THEN iffD1] intro: nth_mem)
qed

lemma joined_rows_stored:
  "(fs, u, f) \<in> set (sessions_users_files db) \<Longrightarrow> f \<in> set (files db)"
  by (auto simp: sessions_users_files_def split: if_splits)

lemma where_rows_returns:
  assumes "\<forall>x \<in> set xs. \<exists>holds. condition x = Inr holds"
  shows "where_rows condition xs = Inr (filter (\<lambda>x. condition x = Inr True) xs)"
  using assms by (induction xs) auto

lemma where_rows_raises:
  assumes "x \<in> set xs" and "condition x = Inl e"
  shows "\<exists>e'. where_rows condition xs = Inl e'"
  using assms by (induction xs) (auto split: sum.splits)

lemma current_editors_unsorted:
  assumes "keys_ok db"
  shows "map (\<lambda>(fs, u, f).
               \<lparr>ce_username = u_username u, ce_file_path = f_file_path f,
                ce_file_name = f_file_name f, ce_last_activity = fs_last_activity fs,
                ce_session_id = fs_id fs\<rparr>)
           (filter (\<lambda>(fs, u, f). like (f_file_path f) pat = Inr True)
              (filter (\<lambda>(fs, u, f). fs_ended_at fs = None) (sessions_users_files db))) =
         List.map_filter (editor_row db)
           (filter (\<lambda>fs. fs_ended_at fs = None \<and> path_matches like db pat fs) (file_sessions db))"
proof -
  have "map (\<lambda>(fs, u, f).
               \<lparr>ce_username = u_username u, ce_file_path = f_file_path f,
                ce_file_name = f_file_name f, ce_last_activity = fs_last_activity fs,
                ce_session_id = fs_id fs\<rparr>)
           (filter (\<lambda>(fs, u, f). like (f_file_path f) pat = Inr True)
              (filter (\<lambda>(fs, u, f). fs_ended_at fs = None)
                 (concat (map (\<lambda>fs. case user_of db (fs_user_id fs) of
                                None \<Rightarrow> []
                              | Some u \<Rightarrow> (case file_of db (fs_file_id fs) of
                                            None \<Rightarrow> []
                                          | Some f \<Rightarrow> [(fs, u, f)]))
                       xs)))) =
        List.map_filter (editor_row db)
           (filter (\<lambda>fs. fs_ended_at fs = None \<and> path_matches like db pat fs) xs)" for xs
    by (induction xs)
       (auto simp: List.map_filter_simps editor_row_def path_matches_def split: option.splits)
  then show ?thesis
    unfolding sessions_users_files_rows [OF assms] .
qed

lemma db_sessions_constraints: "keys_ok db_sessions" "refs_ok db_sessions"
  by (simp_all add: keys_ok_def refs_ok_def db_sessions_def new_session_def alice_def bob_def
      a_py_def readme_md_def)

lemma db_sessions_joined:
  "sessions_users_files db_sessions =
     [(new_session 1 1 1 0 (hour 10) None, alice, a_py),
      (new_session 2 2 1 (hour 99) (hour 100) None, bob, a_py),
      (new_session 3 1 2 (hour 5) (hour 6) (Some (hour 6)), alice, readme_md)]"
  by (simp add: sessions_users_files_def db_sessions_def new_session_def alice_def bob_def
        a_py_def readme_md_def)

text \<open>
  Claim C7, as stated: \<open>get_current_editors\<close> returns the open sessions whose path matches
  the pattern. For the pattern that is a single backslash, an escape character that
  escapes nothing, \<open>LIKE\<close> raises on the path of alice's and bob's open sessions, and the
  function returns no rows at all: it raises \<open>invalid_escape_sequence\<close>.
\<close>

theorem lone_escape_pattern_counterexample:
  "fs_ended_at (file_sessions db_sessions ! 0) = None \<and>
   get_current_editors like_match db_sessions [CHR 0x5C] = Inl InvalidEscapeSequence"
  unfolding get_current_editors_def db_sessions_joined
  by (simp add: like_match_def a_py_def new_session_def db_sessions_def)

text \<open>
  Claim C7, amended. Take a state that satisfies the keys and the foreign keys of the
  schema, as every reachable state does, and a pattern on which \<open>LIKE\<close> raises for the
  path of no stored file. Then \<open>get_current_editors\<close> returns; its rows are, up to their
  order, the rows of exactly the sessions that are open and whose file path matches the
  pattern, one row for each such session (every session has a user and a file), carrying
  the user's name, the file's path and name, the session's \<open>last_activity\<close> and its id;
  and the rows come with \<open>last_activity\<close> descending. When \<open>LIKE\<close> raises for the path of
  the file of an open session, the function raises. The statement holds for whatever
  \<open>like\<close> the storage engine takes for \<open>LIKE\<close>.
\<close>

theorem get_current_editors_open_matching:
  assumes "keys_ok db" and "refs_ok db"
  shows "((\<forall>f \<in> set (files db). \<exists>matches. like (f_file_path f) pat = Inr matches) \<longrightarrow>
            (\<exists>rows. get_current_editors like db pat = Inr rows \<and>
               mset rows =
                 mset (List.map_filter (editor_row db)
                         (filter (\<lambda>fs. fs_ended_at fs = None \<and> path_matches like db pat fs)
                                 (file_sessions db))) \<and>
               sorted_wrt (\<lambda>r r'. ce_last_activity r' \<le> ce_last_activity r) rows)) \<and>
         (\<forall>fs \<in> set (file_sessions db). editor_row db fs \<noteq> None) \<and>
         ((\<exists>fs \<in> set (file_sessions db). fs_ended_at fs = None \<and>
             (\<exists>f e. file_of db (fs_file_id fs) = Some f \<and> like (f_file_path f) pat = Inl e)) \<longrightarrow>
            (\<exists>e. get_current_editors like db pat = Inl e))"
proof (intro conjI impI)
  let ?row = "\<lambda>(fs, u, f).
               \<lparr>ce_username = u_username u, ce_file_path = f_file_path f,
                ce_file_name = f_file_name f, ce_last_activity = fs_last_activity fs,
                ce_session_id = fs_id fs\<rparr>"
  let ?open = "filter (\<lambda>(fs, u, f). fs_ended_at fs = None) (sessions_users_files db)"
  let ?rows = "sort_key (\<lambda>r. - ce_last_activity r)
                 (map ?row (filter (\<lambda>(fs, u, f). like (f_file_path f) pat = Inr True) ?open))"
  assume ok: "\<forall>f \<in> set (files db). \<exists>matches. like (f_file_path f) pat = Inr matches"
  have "\<forall>x \<in> set ?open. \<exists>holds. (case x of (fs, u, f) \<Rightarrow> like (f_file_path f) pat) = Inr holds"
    using ok joined_rows_stored [of _ _ _ db] by auto
  from where_rows_returns [OF this]
  have w: "where_rows (\<lambda>(fs, u, f). like (f_file_path f) pat) ?open =
             Inr (filter (\<lambda>(fs, u, f). like (f_file_path f) pat = Inr True) ?open)"
    by (simp add: case_prod_unfold)
  have r: "get_current_editors like db pat = Inr ?rows"
    unfolding get_current_editors_def w by simp
  have m: "mset ?rows =
             mset (List.map_filter (editor_row db)
                     (filter (\<lambda>fs. fs_ended_at fs = None \<and> path_matches like db pat fs)
                             (file_sessions db)))"
    unfolding mset_sort current_editors_unsorted [OF assms(1)] ..
  have "sorted (map (\<lambda>r. - ce_last_activity r) ?rows)"
    by (rule sorted_sort_key)
  then have s: "sorted_wrt (\<lambda>r r'. ce_last_activity r' \<le> ce_last_activity r) ?rows"
    by (simp add: sorted_wrt_map)
  from r m s
  show "\<exists>rows. get_current_editors like db pat = Inr rows \<and>
               mset rows =
                 mset (List.map_filter (editor_row db)
                         (filter (\<lambda>fs. fs_ended_at fs = None \<and> path_matches like db pat fs)
                                 (file_sessions db))) \<and>
               sorted_wrt (\<lambda>r r'. ce_last_activity r' \<le> ce_last_activity r) rows"
    by blast
next
  show "\<forall>fs \<in> set (file_sessions db). editor_row db fs \<noteq> None"
  proof
    fix fs assume fs: "fs \<in> set (file_sessions db)"
    from stored_user_and_file [OF assms(2) fs]
    show "editor_row db fs \<noteq> None"
      by (auto simp: editor_row_def)
  qed
next
  assume "\<exists>fs \<in> set (file_sessions db). fs_ended_at fs = None \<and>
             (\<exists>f e. file_of db (fs_file_id fs) = Some f \<and> like (f_file_path f) pat = Inl e)"
  then obtain fs f e where fs: "fs \<in> set (file_sessions db)" "fs_ended_at fs = None"
    and f: "file_of db (fs_file_id fs) = Some f" and e: "like (f_file_path f) pat = Inl e"
    by blast
  from stored_user_and_file(1) [OF assms(2) fs(1)] obtain u
    where u: "user_of db (fs_user_id fs) = Some u" by blast
  from fs(1) u f have "(fs, u, f) \<in> set (sessions_users_files db)"
    unfolding sessions_users_files_rows [OF assms(1)] by force
  with fs(2) have "(fs, u, f) \<in> set (filter (\<lambda>(fs, u, f). fs_ended_at fs = None) (sessions_users_files db))"
    by simp
  from where_rows_raises [OF this, of "\<lambda>(fs, u, f). like (f_file_path f) pat" e] e
  obtain e' where "where_rows (\<lambda>(fs, u, f). like (f_file_path f) pat)
     (filter (\<lambda>(fs, u, f). fs_ended_at fs = None) (sessions_users_files db)) = Inl e'"
    by auto
  then show "\<exists>e. get_current_editors like db pat = Inl e"
    by (simp add: get_current_editors_def)
qed

lemma db_sessions_editors:
  "get_current_editors like_match db_sessions ''/a%'' =
     Inr [\<lparr>ce_username = ''bob'', ce_file_path = ''/a.py'', ce_file_name = ''a.py'',
           ce_last_activity = hour 100, ce_session_id = 2\<rparr>,
          \<lparr>ce_username = ''alice'', ce_file_path = ''/a.py'', ce_file_name = ''a.py'',
           ce_last_activity = hour 10, ce_session_id = 1\<rparr>]"
  unfolding get_current_editors_def db_sessions_joined
  by (simp add: like_match_def new_session_def alice_def bob_def a_py_def readme_md_def hour_def)

lemma db_sessions_paths:
  "\<forall>f \<in> set (files db_sessions). \<exists>matches. like_match (f_file_path f) ''/a%'' = Inr matches"
  by (auto simp: db_sessions_def like_match_def a_py_def readme_md_def)

lemma db_sessions_lone_escape:
  "\<exists>fs \<in> set (file_sessions db_sessions). fs_ended_at fs = None \<and>
     (\<exists>f e. file_of db_sessions (fs_file_id fs) = Some f \<and> like_match (f_file_path f) [CHR 0x5C] = Inl e)"
  by (simp add: db_sessions_def new_session_def file_of_def like_match_def a_py_def)

theorem get_current_editors_open_matching_witness:
  "keys_ok db_sessions \<and> refs_ok db_sessions \<and>
   map (\<lambda>f. like_match (f_file_path f) ''/a%'') (files db_sessions) = [Inr True, Inr False] \<and>
   get_current_editors like_match db_sessions ''/a%'' =
     Inr [\<lparr>ce_username = ''bob'', ce_file_path = ''/a.py'', ce_file_name = ''a.py'',
           ce_last_activity = hour 100, ce_session_id = 2\<rparr>,
          \<lparr>ce_username = ''alice'', ce_file_path = ''/a.py'', ce_file_name = ''a.py'',
           ce_last_activity = hour 10, ce_session_id = 1\<rparr>] \<and>
   sorted_wrt (\<lambda>r r'. ce_last_activity r' \<le> ce_last_activity r)
     [\<lparr>ce_username = ''bob'', ce_file_path = ''/a.py'', ce_file_name = ''a.py'',
       ce_last_activity = hour 100, ce_session_id = 2\<rparr>,
      \<lparr>ce_username = ''alice'', ce_file_path = ''/a.py'', ce_file_name = ''a.py'',
       ce_last_activity = hour 10, ce_session_id = 1\<rparr>] \<and>
   (\<exists>e. get_current_editors like_match db_sessions [CHR 0x5C] = Inl e)"
proof -
  note t = get_current_editors_open_matching [OF db_sessions_constraints, of like_match]
  from t [of "''/a%''"] db_sessions_paths
  have "\<exists>rows. get_current_editors like_match db_sessions ''/a%'' = Inr rows \<and>
          sorted_wrt (\<lambda>r r'. ce_last_activity r' \<le> ce_last_activity r) rows"
    by blast
  then have 1: "sorted_wrt (\<lambda>r r'. ce_last_activity r' \<le> ce_last_activity r)
     [\<lparr>ce_username = ''bob'', ce_file_path = ''/a.py'', ce_file_name = ''a.py'',
       ce_last_activity = hour 100, ce_session_id = 2\<rparr>,
      \<lparr>ce_username = ''alice'', ce_file_path = ''/a.py'', ce_file_name = ''a.py'',
       ce_last_activity = hour 10, ce_session_id = 1\<rparr>]"
    unfolding db_sessions_editors by blast
  from t [of "[CHR 0x5C]"] db_sessions_lone_escape
  have 2: "\<exists>e. get_current_editors like_match db_sessions [CHR 0x5C] = Inl e"
    by blast
  have 3: "map (\<lambda>f. like_match (f_file_path f) ''/a%'') (files db_sessions) = [Inr True, Inr False]"
    by (simp add: db_sessions_def like_match_def a_py_def readme_md_def)
  from 1 2 3 db_sessions_constraints db_sessions_editors show ?thesis
    by blast
qed

section \<open>The change timeline\<close>

lemma push_group_keys:
  "map fst (push_group d x acc) = (if d \<in> set (map fst acc) then map fst acc else map fst acc @ [d])"
  by (induction acc) (force+)

lemma map_of_push_group:
  "map_of (push_group d x acc) d' =
     (if d' = d then Some ((case map_of acc d of None \<Rightarrow> [] | Some g \<Rightarrow> g) @ [x])
      else map_of acc d')"
  by (induction acc) auto

lemma mset_push_group:
  "mset (concat (map snd (push_group d x acc))) = add_mset x (mset (concat (map snd acc)))"
  by (induction acc) auto

lemma grouped_snoc:
  "grouped day (xs @ [x]) = push_group (day (ch_started_at x)) x (grouped day xs)"
  by (simp add: grouped_def)

lemma distinct_grouped: "distinct (map fst (grouped day xs))"
proof (induction xs rule: rev_induct)
  case Nil
  then show ?case by (simp add: grouped_def)
next
  case (snoc x xs)
  then show ?case by (simp add: grouped_snoc push_group_keys)
qed

lemma map_of_grouped:
  "map_of (grouped day xs) d =
     (case filter (\<lambda>x. day (ch_started_at x) = d) xs of [] \<Rightarrow> None | g \<Rightarrow> Some g)"
proof (induction xs rule: rev_induct)
  case Nil
  then show ?case by (simp add: grouped_def)
next
  case (snoc x xs)
  then show ?case
    by (cases "filter (\<lambda>x. day (ch_started_at x) = d) xs")
       (auto simp: grouped_snoc map_of_push_group)
qed

lemma mset_grouped: "mset (concat (map snd (grouped day xs))) = mset xs"
proof (induction xs rule: rev_induct)
  case Nil
  then show ?case by (simp add: grouped_def)
next
  case (snoc x xs)
  then show ?case by (simp add: grouped_snoc mset_push_group)
qed

lemma grouped_entries:
  assumes "(d, entries) \<in> set (grouped day xs)"
  shows "entries = filter (\<lambda>x. day (ch_started_at x) = d) xs" and "entries \<noteq> []"
proof -
  from assms distinct_grouped [of day xs] have "map_of (grouped day xs) d = Some entries"
    by simp
  then have "(case filter (\<lambda>x. day (ch_started_at x) = d) xs of [] \<Rightarrow> None | g \<Rightarrow> Some g)
               = Some entries"
    by (simp only: map_of_grouped)
  then show "entries = filter (\<lambda>x. day (ch_started_at x) = d) xs" and "entries \<noteq> []"
    by (auto split: list.splits)
qed

lemma grouped_has:
  assumes "x \<in> set xs"
  shows "\<exists>entries. (day (ch_started_at x), entries) \<in> set (grouped day xs) \<and> x \<in> set entries"
proof -
  let ?es = "filter (\<lambda>y. day (ch_started_at y) = day (ch_started_at x)) xs"
  from assms have in_es: "x \<in> set ?es" by simp
  then have "?es \<noteq> []" by (metis empty_iff empty_set)
  then have "map_of (grouped day xs) (day (ch_started_at x)) = Some ?es"
    by (simp add: map_of_grouped split: list.splits)
  then have "(day (ch_started_at x), ?es) \<in> set (grouped day xs)"
    by (rule map_of_SomeD)
  with in_es show ?thesis by blast
qed

lemma comment_of_None:
  "(comment_of db sid = None) = (sid \<notin> set (map c_session_id (comments db)))"
  by (auto simp: comment_of_def find_None_iff)

lemma comment_of_Some:
  "comment_of db sid = Some c \<Longrightarrow> c \<in> set (comments db) \<and> c_session_id c = sid"
  by (auto simp: comment_of_def find_Some_iff)

lemma one_row_for_each_session:
  assumes "keys_ok db" and "refs_ok db"
  shows "map fst (sessions_users_files db) = file_sessions db"
proof -
  have "map fst (concat (map (\<lambda>fs. case user_of db (fs_user_id fs) of
                                None \<Rightarrow> []
                              | Some u \<Rightarrow> (case file_of db (fs_file_id fs) of
                                            None \<Rightarrow> []
                                          | Some f \<Rightarrow> [(fs, u, f)]))
                       xs)) = xs"
    if "set xs \<subseteq> set (file_sessions db)" for xs
    using that
  proof (induction xs)
    case Nil
    then show ?case by simp
  next
    case (Cons fs xs)
    then have "fs \<in> set (file_sessions db)" by simp
    from stored_user_and_file [OF assms(2) this] Cons show ?case
      by auto
  qed
  then show ?thesis
    unfolding sessions_users_files_rows [OF assms(1)] by simp
qed

lemma joined_row:
  assumes "keys_ok db" and "(fs, u, f) \<in> set (sessions_users_files db)"
  shows "fs \<in> set (file_sessions db)" "user_of db (fs_user_id fs) = Some u"
    "file_of db (fs_file_id fs) = Some f"
  using assms(2) unfolding sessions_users_files_rows [OF assms(1)]
  by (auto split: option.splits)

lemma served_changes_ids:
  assumes "keys_ok db" and "refs_ok db"
  shows "map ch_session_id (served_changes db) = map fs_id (file_sessions db)"
proof -
  have "map ch_session_id (served_changes db) = map fs_id (map fst (sessions_users_files db))"
    by (simp add: served_changes_def case_prod_unfold comp_def)
  then show ?thesis
    by (simp only: one_row_for_each_session [OF assms])
qed

lemma mset_map_concat_grouped:
  "mset (map g (concat (map snd (grouped day xs)))) = mset (map g xs)"
  using mset_grouped [of day xs] by (metis mset_map)

text \<open>
  The state in which alice's first session carries her comment, as the statements reach
  it, and the timeline of its two sessions.
\<close>

lemma run_timeline_story:
  "run (closed_session_story @
          [InsertSession (new_session 2 1 1 (hour 30) (hour 31) (Some (hour 31))),
           InsertComment fixed_bug]) empty_db = db_timeline"
  by (simp add: closed_session_story_def empty_db_def db_timeline_def insert_users_def
      insert_files_def insert_file_sessions_def insert_comments_def coerce_users_def
      coerce_files_def coerce_file_sessions_def coerce_comments_def varchar_def varchar_null_def
      alice_def a_py_def new_session_def fixed_bug_def)

lemma db_timeline_consistent: "consistent db_timeline"
  using reachable_consistent
          [of "closed_session_story @
                 [InsertSession (new_session 2 1 1 (hour 30) (hour 31) (Some (hour 31))),
                  InsertComment fixed_bug]"]
  by (simp only: run_timeline_story)

lemma db_timeline_changes:
  "changeTimeline example_day db_timeline =
     [(''1/1/2000'',
       [\<lparr>ch_session_id = 1, ch_username = ''alice'', ch_file_path = ''/a.py'',
         ch_file_name = ''a.py'', ch_started_at = 0,
         ch_comment = Some \<lparr>cc_content = ''fixed bug'', cc_change_type = ''bugfix''\<rparr>\<rparr>]),
      (''1/2/2000'',
       [\<lparr>ch_session_id = 2, ch_username = ''alice'', ch_file_path = ''/a.py'',
         ch_file_name = ''a.py'', ch_started_at = hour 30, ch_comment = None\<rparr>])]"
  by (simp add: changeTimeline_def grouped_def served_changes_def sessions_users_files_def
        comment_of_def example_day_def db_timeline_def new_session_def alice_def a_py_def
        fixed_bug_def hour_def)

text \<open>
  Claim C8. In a state that satisfies the keys and the foreign keys of the schema, as
  every reachable state does, the timeline holds one entry for each session, those without
  a comment included. The entries stand under the calendar day of their \<open>started_at\<close>,
  one group for each day that has a session. The entry of a session carries the name of
  its user, the path and the name of its file, its \<open>started_at\<close> and the content and the
  change type of its comment, which is the one row of \<open>comments\<close> that names the session;
  the entry of a session without a comment carries none, and its card reads
  \<open>No comment\<close> and \<open>N/A\<close>.
\<close>

theorem changeTimeline_every_session:
  assumes "keys_ok db" and "refs_ok db"
  shows "mset (map ch_session_id (concat (map snd (changeTimeline day db))))
           = mset (map fs_id (file_sessions db)) \<and>
         distinct (map fst (changeTimeline day db)) \<and>
         (\<forall>(d, entries) \<in> set (changeTimeline day db).
            entries \<noteq> [] \<and> (\<forall>e \<in> set entries. day (ch_started_at e) = d)) \<and>
         (\<forall>e \<in> set (concat (map snd (changeTimeline day db))).
            \<exists>fs u f. fs \<in> set (file_sessions db) \<and> user_of db (fs_user_id fs) = Some u \<and>
              file_of db (fs_file_id fs) = Some f \<and>
              e = \<lparr>ch_session_id = fs_id fs, ch_username = u_username u,
                   ch_file_path = f_file_path f, ch_file_name = f_file_name f,
                   ch_started_at = fs_started_at fs,
                   ch_comment =
                     map_option (\<lambda>c. \<lparr>cc_content = c_content c, cc_change_type = c_change_type c\<rparr>)
                                (comment_of db (fs_id fs))\<rparr>) \<and>
         (\<forall>sid. (comment_of db sid = None) = (sid \<notin> set (map c_session_id (comments db)))) \<and>
         (\<forall>sid c. comment_of db sid = Some c \<longrightarrow> c \<in> set (comments db) \<and> c_session_id c = sid) \<and>
         (\<forall>fs \<in> set (file_sessions db).
            fs_id fs \<notin> set (map c_session_id (comments db)) \<longrightarrow>
              (\<exists>entries e. (day (fs_started_at fs), entries) \<in> set (changeTimeline day db) \<and>
                 e \<in> set entries \<and> ch_session_id e = fs_id fs \<and> ch_comment e = None \<and>
                 card_comment e = ''No comment'' \<and> card_type e = ''N/A''))"
proof (intro conjI)
  show "mset (map ch_session_id (concat (map snd (changeTimeline day db))))
           = mset (map fs_id (file_sessions db))"
    unfolding changeTimeline_def mset_map_concat_grouped
    by (simp only: served_changes_ids [OF assms])
next
  show "distinct (map fst (changeTimeline day db))"
    unfolding changeTimeline_def by (rule distinct_grouped)
next
  show "\<forall>(d, entries) \<in> set (changeTimeline day db).
            entries \<noteq> [] \<and> (\<forall>e \<in> set entries. day (ch_started_at e) = d)"
  proof (intro ballI, clarify)
    fix d entries assume "(d, entries) \<in> set (changeTimeline day db)"
    then have g: "(d, entries) \<in> set (grouped day (served_changes db))"
      by (simp only: changeTimeline_def)
    from grouped_entries [OF g]
    show "entries \<noteq> [] \<and> (\<forall>e \<in> set entries. day (ch_started_at e) = d)"
      by simp
  qed
next
  show "\<forall>e \<in> set (concat (map snd (changeTimeline day db))).
            \<exists>fs u f. fs \<in> set (file_sessions db) \<and> user_of db (fs_user_id fs) = Some u \<and>
              file_of db (fs_file_id fs) = Some f \<and>
              e = \<lparr>ch_session_id = fs_id fs, ch_username = u_username u,
                   ch_file_path = f_file_path f, ch_file_name = f_file_name f,
                   ch_started_at = fs_started_at fs,
                   ch_comment =
                     map_option (\<lambda>c. \<lparr>cc_content = c_content c, cc_change_type = c_change_type c\<rparr>)
                                (comment_of db (fs_id fs))\<rparr>"
  proof
    fix e assume "e \<in> set (concat (map snd (changeTimeline day db)))"
    then have "e \<in># mset (concat (map snd (grouped day (served_changes db))))"
      by (simp only: changeTimeline_def set_mset_mset)
    then have "e \<in> set (served_changes db)"
      by (simp only: mset_grouped set_mset_mset)
    then obtain fs u f where j: "(fs, u, f) \<in> set (sessions_users_files db)"
      and e: "e = \<lparr>ch_session_id = fs_id fs, ch_username = u_username u,
                   ch_file_path = f_file_path f, ch_file_name = f_file_name f,
                   ch_started_at = fs_started_at fs,
                   ch_comment =
                     map_option (\<lambda>c. \<lparr>cc_content = c_content c, cc_change_type = c_change_type c\<rparr>)
                                (comment_of db (fs_id fs))\<rparr>"
      by (auto simp: served_changes_def)
    from joined_row [OF assms(1) j] e
    show "\<exists>fs u f. fs \<in> set (file_sessions db) \<and> user_of db (fs_user_id fs) = Some u \<and>
              file_of db (fs_file_id fs) = Some f \<and>
              e = \<lparr>ch_session_id = fs_id fs, ch_username = u_username u,
                   ch_file_path = f_file_path f, ch_file_name = f_file_name f,
                   ch_started_at = fs_started_at fs,
                   ch_comment =
                     map_option (\<lambda>c. \<lparr>cc_content = c_content c, cc_change_type = c_change_type c\<rparr>)
                                (comment_of db (fs_id fs))\<rparr>"
      by blast
  qed
next
  show "\<forall>sid. (comment_of db sid = None) = (sid \<notin> set (map c_session_id (comments db)))"
    by (simp only: comment_of_None) simp
next
  show "\<forall>sid c. comment_of db sid = Some c \<longrightarrow> c \<in> set (comments db) \<and> c_session_id c = sid"
    using comment_of_Some by blast
next
  show "\<forall>fs \<in> set (file_sessions db).
            fs_id fs \<notin> set (map c_session_id (comments db)) \<longrightarrow>
              (\<exists>entries e. (day (fs_started_at fs), entries) \<in> set (changeTimeline day db) \<and>
                 e \<in> set entries \<and> ch_session_id e = fs_id fs \<and> ch_comment e = None \<and>
                 card_comment e = ''No comment'' \<and> card_type e = ''N/A'')"
  proof (intro ballI impI)
    fix fs assume fs: "fs \<in> set (file_sessions db)"
      and none: "fs_id fs \<notin> set (map c_session_id (comments db))"
    from stored_user_and_file [OF assms(2) fs] obtain u f
      where u: "user_of db (fs_user_id fs) = Some u" and f: "file_of db (fs_file_id fs) = Some f"
      by blast
    let ?e = "\<lparr>ch_session_id = fs_id fs, ch_username = u_username u,
                   ch_file_path = f_file_path f, ch_file_name = f_file_name f,
                   ch_started_at = fs_started_at fs, ch_comment = None\<rparr>"
    from fs u f have "(fs, u, f) \<in> set (sessions_users_files db)"
      unfolding sessions_users_files_rows [OF assms(1)] by force
    then have "(\<lambda>(fs, u, f).
            \<lparr>ch_session_id = fs_id fs, ch_username = u_username u,
             ch_file_path = f_file_path f, ch_file_name = f_file_name f,
             ch_started_at = fs_started_at fs,
             ch_comment =
               map_option (\<lambda>c. \<lparr>cc_content = c_content c, cc_change_type = c_change_type c\<rparr>)
                          (comment_of db (fs_id fs))\<rparr>) (fs, u, f) \<in> set (served_changes db)"
      unfolding served_changes_def set_map by (rule imageI)
    moreover from none have "comment_of db (fs_id fs) = None"
      by (simp add: comment_of_None)
    ultimately have "?e \<in> set (served_changes db)"
      by simp
    from grouped_has [OF this, of day]
    obtain entries where "(day (fs_started_at fs), entries) \<in> set (changeTimeline day db)"
      and "?e \<in> set entries"
      by (auto simp: changeTimeline_def)
    moreover have "ch_session_id ?e = fs_id fs" "ch_comment ?e = None"
      "card_comment ?e = ''No comment''" "card_type ?e = ''N/A''"
      by (simp_all add: card_comment_def card_type_def)
    ultimately show "\<exists>entries e. (day (fs_started_at fs), entries) \<in> set (changeTimeline day db) \<and>
                 e \<in> set entries \<and> ch_session_id e = fs_id fs \<and> ch_comment e = None \<and>
                 card_comment e = ''No comment'' \<and> card_type e = ''N/A''"
      by blast
  qed
qed

theorem changeTimeline_every_session_witness:
  "keys_ok db_timeline \<and> refs_ok db_timeline \<and>
   changeTimeline example_day db_timeline =
     [(''1/1/2000'',
       [\<lparr>ch_session_id = 1, ch_username = ''alice'', ch_file_path = ''/a.py'',
         ch_file_name = ''a.py'', ch_started_at = 0,
         ch_comment = Some \<lparr>cc_content = ''fixed bug'', cc_change_type = ''bugfix''\<rparr>\<rparr>]),
      (''1/2/2000'',
       [\<lparr>ch_session_id = 2, ch_username = ''alice'', ch_file_path = ''/a.py'',
         ch_file_name = ''a.py'', ch_started_at = hour 30, ch_comment = None\<rparr>])] \<and>
   mset (map ch_session_id (concat (map snd (changeTimeline example_day db_timeline))))
     = mset (map fs_id (file_sessions db_timeline)) \<and>
   new_session 2 1 1 (hour 30) (hour 31) (Some (hour 31)) \<in> set (file_sessions db_timeline) \<and>
   fs_id (new_session 2 1 1 (hour 30) (hour 31) (Some (hour 31)))
     \<notin> set (map c_session_id (comments db_timeline)) \<and>
   (\<exists>entries e.
      (example_day (fs_started_at (new_session 2 1 1 (hour 30) (hour 31) (Some (hour 31)))), entries)
        \<in> set (changeTimeline example_day db_timeline) \<and>
      e \<in> set entries \<and>
      ch_session_id e = fs_id (new_session 2 1 1 (hour 30) (hour 31) (Some (hour 31))) \<and>
      ch_comment e = None \<and> card_comment e = ''No comment'' \<and> card_type e = ''N/A'')"
proof -
  from db_timeline_consistent have k: "keys_ok db_timeline" and r: "refs_ok db_timeline"
    by (simp_all add: consistent_def)
  let ?fs = "new_session 2 1 1 (hour 30) (hour 31) (Some (hour 31))"
  have 1: "?fs \<in> set (file_sessions db_timeline)"
    by (simp add: db_timeline_def)
  have 2: "fs_id ?fs \<notin> set (map c_session_id (comments db_timeline))"
    by (simp add: db_timeline_def new_session_def fixed_bug_def)
  note t = changeTimeline_every_session [OF k r, of example_day]
  from t have 3: "mset (map ch_session_id (concat (map snd (changeTimeline example_day db_timeline))))
     = mset (map fs_id (file_sessions db_timeline))"
    by blast
  from t 1 2 have 4: "\<exists>entries e.
      (example_day (fs_started_at ?fs), entries) \<in> set (changeTimeline example_day db_timeline) \<and>
      e \<in> set entries \<and> ch_session_id e = fs_id ?fs \<and>
      ch_comment e = None \<and> card_comment e = ''No comment'' \<and> card_type e = ''N/A''"
    by blast
  from k r 1 2 3 4 db_timeline_changes show ?thesis
    by blast
qed

end
